theory Spec2Isabelle
  imports Main "HOL-Library.AList"
begin

section \<open>JavaScript values, attribute maps and errors\<close>

text \<open>
  The values an attribute can hold (\<^verbatim>\<open>Record<string, any>\<close> in the source). The
  model keeps the constructors the code tells apart: \<^verbatim>\<open>undefined\<close> and \<^verbatim>\<open>null\<close>
  (the \<^verbatim>\<open>??\<close> of \<^verbatim>\<open>createNodes\<close>), strings (the \<^verbatim>\<open>===\<close> on \<^verbatim>\<open>$id\<close>), and
  booleans and integers as further payloads.
\<close>

datatype jsval = JUndefined | JNull | JBool bool | JNum int | JStr string

text \<open>
  An attribute map is an association list in insertion order, as a JavaScript \<^verbatim>\<open>Map\<close>
  or object keeps its string keys: \<^verbatim>\<open>setAttribute\<close> overwrites a key in place or appends
  it, \<^verbatim>\<open>getAttribute\<close> of a missing key is \<^verbatim>\<open>undefined\<close>.
\<close>

type_synonym attrs = "(string \<times> jsval) list"

definition getAttribute :: "attrs \<Rightarrow> string \<Rightarrow> jsval" where
  "getAttribute a k = (case map_of a k of None \<Rightarrow> JUndefined | Some v \<Rightarrow> v)"

definition setAttribute :: "string \<Rightarrow> jsval \<Rightarrow> attrs \<Rightarrow> attrs" where
  "setAttribute k v a = AList.update k v a"

definition removeAttribute :: "string \<Rightarrow> attrs \<Rightarrow> attrs" where
  "removeAttribute k a = AList.delete k a"

definition hasAttribute :: "attrs \<Rightarrow> string \<Rightarrow> bool" where
  "hasAttribute a k = (map_of a k \<noteq> None)"

text \<open>
  Every \<^verbatim>\<open>throw new Error(...)\<close> of the source is one constructor, named after its
  message. \<open>LengthExceeded\<close> is the error of the replication engine's child-list
  primitives on a range outside the list; \<open>TypeError\<close> is the JavaScript runtime's error
  on a call through \<^verbatim>\<open>null\<close> or on a method the receiver does not have.
\<close>

datatype error =
    UnexpectedTargetType
  | ElementNotAmongChildren
  | CannotDeleteTopLevel
  | UnexpectedXmlDataItem
  | UnableToFindChild string
  | NoIndexSpecified
  | OnlyInsertTextInTextNode
  | OnlyFormatTextInTextNode
  | OnlyDeleteTextInTextNode
  | ElementNotFound string
  | CannotInsertChildrenIntoText
  | CannotDeleteChildrenOfText
  | CannotRemoveAttributesFromText
  | CannotSetAttributesOnText
  | NodeIsNotTextElement
  | LengthExceeded
  | TypeError

section \<open>The replicated tree\<close>

text \<open>
  One entry of a text delta, as the engine's \<^verbatim>\<open>toDelta()\<close> and its text events carry
  it: each of \<^verbatim>\<open>insert\<close>, \<^verbatim>\<open>retain\<close>, \<^verbatim>\<open>delete\<close> and \<^verbatim>\<open>attributes\<close> may be absent.
  An inserted payload is a string or an embedded object.
\<close>

datatype tinsert = TStr string | TEmbed attrs

record ytext_delta =
  td_insert :: "tinsert option"
  td_retain :: "nat option"
  td_delete :: "nat option"
  td_attributes :: "attrs option"

text \<open>
  A node is a \<^verbatim>\<open>Y.XmlElement\<close> (node name, attributes, children) or a \<^verbatim>\<open>Y.XmlText\<close>.
  A text run is represented by the delta its \<^verbatim>\<open>toDelta()\<close> returns.
\<close>

datatype ynode =
    XmlElement (nodeName: string) (attributes: attrs) (children: "ynode list")
  | XmlText (toDelta: "ytext_delta list")

fun isElement :: "ynode \<Rightarrow> bool" where
  "isElement (XmlElement nm at cs) = True"
| "isElement (XmlText d) = False"

text \<open>
  The loosely typed items that \<^verbatim>\<open>serialize\<close> returns and \<^verbatim>\<open>createNodes\<close> reads. An item
  with a \<^verbatim>\<open>text\<close> field is \<open>SpecText\<close> (its \<^verbatim>\<open>delta\<close> may be absent), whatever else it
  holds, since \<^verbatim>\<open>createNodes\<close> tests \<^verbatim>\<open>child.text\<close> first; an item with an \<^verbatim>\<open>element\<close>
  field only is \<open>SpecElement\<close>, with the four fields either function touches:
  \<^verbatim>\<open>name\<close>, \<^verbatim>\<open>tagName\<close>, \<^verbatim>\<open>attributes\<close>, \<^verbatim>\<open>children\<close>; anything else is \<open>SpecOther\<close>.
\<close>

datatype nodespec =
    SpecText "ytext_delta list option"
  | SpecElement (spec_name: "string option") (spec_tagName: "string option")
      (spec_attributes: "attrs option") (spec_children: "nodespec list option")
  | SpecOther

section \<open>The engine's side\<close>

text \<open>
  What the wrapped engine and the \<^verbatim>\<open>uuid\<close> package contribute is taken as a parameter:
  the identifier generator (\<open>uuid n\<close> is the string the \<open>n\<close>-th call returns), the
  node name the engine gives an element constructed without one, the primitives on a
  text run (each returns the new run and, when the run changed, the delta
  of its event), and the undo manager (what it records of a transaction, and what an
  undo or a redo does to the tree, with the events it raises).
\<close>

datatype keyaction = KAdd | KUpdate | KDelete

datatype yinsert = InsertArray "ynode list" | InsertOne ynode

record yelem_delta =
  yd_insert :: "yinsert option"
  yd_retain :: "nat option"
  yd_delete :: "nat option"

text \<open>
  A deep-change event, with what the observer reads of it: for an element target whether
  it is the document root, its attributes at the time of the callback, the child delta
  and the changed keys; for a text target the attributes of its parent (if it has one)
  and the text delta. \<open>OtherEvent\<close> is an event on any other shared type.
\<close>

datatype yevent =
    ElementEvent bool attrs "yelem_delta list" "(string \<times> keyaction) list"
  | TextEvent "attrs option" "ytext_delta list"
  | OtherEvent

record 'h engine =
  uuid :: "nat \<Rightarrow> string"
  defaultNodeName :: string
  applyDelta :: "ytext_delta list \<Rightarrow> ytext_delta list \<Rightarrow> ytext_delta list"
  textInsert :: "nat \<Rightarrow> string \<Rightarrow> attrs option \<Rightarrow> ytext_delta list
                  \<Rightarrow> ytext_delta list \<times> ytext_delta list option"
  textFormat :: "nat \<Rightarrow> nat \<Rightarrow> attrs \<Rightarrow> ytext_delta list
                  \<Rightarrow> ytext_delta list \<times> ytext_delta list option"
  textDelete :: "nat \<Rightarrow> nat \<Rightarrow> ytext_delta list
                  \<Rightarrow> ytext_delta list \<times> ytext_delta list option"
  track :: "ynode \<Rightarrow> ynode \<Rightarrow> 'h \<Rightarrow> 'h"
  undoStep :: "ynode \<Rightarrow> 'h \<Rightarrow> ynode \<times> 'h \<times> yevent list"
  redoStep :: "ynode \<Rightarrow> 'h \<Rightarrow> ynode \<times> 'h \<times> yevent list"

section \<open>The serializer\<close>

text \<open>
  \<^verbatim>\<open>serialize\<close>: an element becomes \<^verbatim>\<open>{element: {tagName, attributes, children}}\<close>, a
  text run \<^verbatim>\<open>{text: {delta}}\<close>. Every serialized child is an object, hence truthy, so
  the \<^verbatim>\<open>if (m)\<close> of the loop keeps every child.
\<close>

fun serialize :: "ynode \<Rightarrow> nodespec" where
  "serialize (XmlElement nm at cs) =
     SpecElement None (Some nm) (Some at) (Some (map serialize cs))"
| "serialize (XmlText d) = SpecText (Some d)"

section \<open>Node construction\<close>

text \<open>
  \<^verbatim>\<open>new Y.XmlElement(name)\<close>: an element without attributes and children. Its node name
  is the argument, or the default of the constructor's parameter when the argument is
  \<^verbatim>\<open>undefined\<close> (in Yjs the string \<^verbatim>\<open>'UNDEFINED'\<close>).
\<close>

definition newXmlElement :: "'h engine \<Rightarrow> string option \<Rightarrow> ynode" where
  "newXmlElement eng nm =
     XmlElement (case nm of None \<Rightarrow> defaultNodeName eng | Some s \<Rightarrow> s) [] []"

text \<open>
  \<^verbatim>\<open>child.element.attributes?.id\<close>, as the left operand of \<^verbatim>\<open>??\<close>: \<open>None\<close> when the
  attributes are absent or the \<^verbatim>\<open>id\<close> is \<^verbatim>\<open>undefined\<close> or \<^verbatim>\<open>null\<close>.
\<close>

definition explicitId :: "attrs option \<Rightarrow> jsval option" where
  "explicitId at =
     (case at of
        None \<Rightarrow> None
      | Some kvs \<Rightarrow>
          (case getAttribute kvs ''id'' of
             JUndefined \<Rightarrow> None
           | JNull \<Rightarrow> None
           | v \<Rightarrow> Some v))"

text \<open>
  The loop \<^verbatim>\<open>for (const k of Object.keys(attributes)) element.setAttribute(k, attributes[k])\<close>.
\<close>

definition copyAttributes :: "attrs \<Rightarrow> attrs \<Rightarrow> attrs" where
  "copyAttributes kvs a = fold (\<lambda>k. setAttribute k (getAttribute kvs k)) (map fst kvs) a"

text \<open>
  \<^verbatim>\<open>createNodes\<close>, with the number of identifiers generated so far passed through. A
  text item gives a fresh text run, with the delta applied when there is one (an array is
  truthy even when empty). An element item gives an element named \<^verbatim>\<open>child.element.name\<close>
  whose \<^verbatim>\<open>$id\<close> is set first, then every attribute of the item is copied, then the
  children are built and inserted at 0.
\<close>

fun createNodes :: "'h engine \<Rightarrow> nodespec list \<Rightarrow> nat \<Rightarrow> error + (ynode list \<times> nat)"
  and createNode :: "'h engine \<Rightarrow> nodespec \<Rightarrow> nat \<Rightarrow> error + (ynode \<times> nat)"
where
  "createNodes eng [] n = Inr ([], n)"
| "createNodes eng (child # rest) n =
     (case createNode eng child n of
        Inl e \<Rightarrow> Inl e
      | Inr (node, n1) \<Rightarrow>
          (case createNodes eng rest n1 of
             Inl e \<Rightarrow> Inl e
           | Inr (nodes, n2) \<Rightarrow> Inr (node # nodes, n2)))"
| "createNode eng (SpecText d) n =
     Inr (XmlText (case d of None \<Rightarrow> [] | Some dl \<Rightarrow> applyDelta eng dl []), n)"
| "createNode eng (SpecElement nm tg at chs) n =
     (let (ident, n1) = (case explicitId at of
                           Some v \<Rightarrow> (v, n)
                         | None \<Rightarrow> (JStr (uuid eng n), Suc n));
          a1 = setAttribute ''$id'' ident (attributes (newXmlElement eng nm));
          a2 = (case at of None \<Rightarrow> a1 | Some kvs \<Rightarrow> copyAttributes kvs a1)
      in case chs of
           None \<Rightarrow> Inr (XmlElement (nodeName (newXmlElement eng nm)) a2 [], n1)
         | Some specs \<Rightarrow>
             (case createNodes eng specs n1 of
                Inl e \<Rightarrow> Inl e
              | Inr (cs, n2) \<Rightarrow> Inr (XmlElement (nodeName (newXmlElement eng nm)) a2 cs, n2)))"
| "createNode eng SpecOther n = Inl UnexpectedXmlDataItem"

section \<open>The change observer\<close>

text \<open>The shapes of a change notification, field by field as the source declares them.\<close>

record ChangeNotificationElements =
  el_retain :: "nat option"
  el_insert :: "nodespec list option"
  el_delete :: "nat option"

record ChangeNotificationAttributesSet =
  set_name :: string
  set_value :: jsval

record ChangeNotificationAttributes =
  attr_set :: "ChangeNotificationAttributesSet list"
  attr_delete :: "string list"

record ChangeNotificationText =
  tx_retain :: "nat option"
  tx_insert :: "tinsert option"
  tx_delete :: "nat option"
  tx_attributes :: "attrs option"

record ChangeNotification =
  msg_root :: bool
  msg_target :: jsval
  msg_elements :: "ChangeNotificationElements list"
  msg_attributes :: "ChangeNotificationAttributes"
  msg_text :: "ChangeNotificationText list"

text \<open>
  JavaScript truthiness of the optional fields the code tests: a count is truthy when
  present and not 0, a string when present and not empty, an array or an object whenever
  present.
\<close>

definition truthyNum :: "nat option \<Rightarrow> bool" where
  "truthyNum n = (case n of None \<Rightarrow> False | Some k \<Rightarrow> k \<noteq> 0)"

definition truthyStr :: "string option \<Rightarrow> bool" where
  "truthyStr s = (case s of None \<Rightarrow> False | Some t \<Rightarrow> t \<noteq> [])"

definition truthyInsert :: "tinsert option \<Rightarrow> bool" where
  "truthyInsert i = (case i of None \<Rightarrow> False | Some (TStr t) \<Rightarrow> t \<noteq> [] | Some (TEmbed e) \<Rightarrow> True)"

text \<open>One pass of the loop over \<^verbatim>\<open>changes.delta\<close> of an element event: what it pushes.\<close>

definition elementDelta :: "yelem_delta \<Rightarrow> ChangeNotificationElements list" where
  "elementDelta delta =
     (case yd_insert delta of
        Some ins \<Rightarrow>
          [\<lparr> el_retain = yd_retain delta,
             el_insert = Some (map serialize
                                 (case ins of InsertArray ns \<Rightarrow> ns | InsertOne x \<Rightarrow> [x])),
             el_delete = None \<rparr>]
      | None \<Rightarrow>
          if truthyNum (yd_delete delta)
          then [\<lparr> el_retain = yd_retain delta, el_insert = None,
                  el_delete = yd_delete delta \<rparr>]
          else if truthyNum (yd_retain delta)
          then [\<lparr> el_retain = yd_retain delta, el_insert = None, el_delete = None \<rparr>]
          else [])"

text \<open>
  The \<^verbatim>\<open>forEach\<close> over \<^verbatim>\<open>changes.keys\<close>: \<open>t\<close> are the target's attributes when the
  callback runs, \<open>m\<close> the \<^verbatim>\<open>message.attributes\<close> built so far.
\<close>

fun attributeChanges ::
  "attrs \<Rightarrow> (string \<times> keyaction) list \<Rightarrow> ChangeNotificationAttributes
     \<Rightarrow> ChangeNotificationAttributes" where
  "attributeChanges t [] m = m"
| "attributeChanges t ((key, change) # rest) m =
     attributeChanges t rest
       (if change = KAdd \<or> change = KUpdate
        then m\<lparr>attr_set := attr_set m @ [\<lparr> set_name = key, set_value = getAttribute t key \<rparr>]\<rparr>
        else if change = KDelete
        then m\<lparr>attr_delete := attr_delete m @ [key]\<rparr>
        else m)"

text \<open>One pass of the loop over \<^verbatim>\<open>changes.delta\<close> of a text event.\<close>

definition textDelta :: "ytext_delta \<Rightarrow> ChangeNotificationText list" where
  "textDelta delta =
     (if truthyInsert (td_insert delta)
      then [\<lparr> tx_retain = td_retain delta, tx_insert = td_insert delta,
              tx_delete = None, tx_attributes = None \<rparr>]
      else if truthyNum (td_delete delta)
      then [\<lparr> tx_retain = td_retain delta, tx_insert = None,
              tx_delete = td_delete delta, tx_attributes = None \<rparr>]
      else if truthyNum (td_retain delta)
      then [\<lparr> tx_retain = td_retain delta, tx_insert = None,
              tx_delete = None, tx_attributes = None \<rparr>]
      else [])"

text \<open>The message built for one event, or the throw on an unexpected target.\<close>

fun notification :: "yevent \<Rightarrow> error + ChangeNotification" where
  "notification (ElementEvent isRoot t delta keys) =
     Inr \<lparr> msg_root = isRoot,
           msg_target = getAttribute t ''$id'',
           msg_elements = concat (map elementDelta delta),
           msg_attributes = attributeChanges t keys \<lparr> attr_set = [], attr_delete = [] \<rparr>,
           msg_text = [] \<rparr>"
| "notification (TextEvent parent delta) =
     Inr \<lparr> msg_root = False,
           msg_target = (case parent of
                           None \<Rightarrow> JUndefined
                         | Some t \<Rightarrow> (case getAttribute t ''$id'' of
                                       JNull \<Rightarrow> JUndefined
                                     | v \<Rightarrow> v)),
           msg_elements = [],
           msg_attributes = \<lparr> attr_set = [], attr_delete = [] \<rparr>,
           msg_text = concat (map textDelta delta) \<rparr>"
| "notification OtherEvent = Inl UnexpectedTargetType"

text \<open>
  The callback given to \<^verbatim>\<open>observeDeep\<close>: one call of \<^verbatim>\<open>notifyChanges\<close> per event, in
  order; \<open>lg\<close> lists the messages handed to the sink so far.
\<close>

fun observeDeep ::
  "yevent list \<Rightarrow> ChangeNotification list \<Rightarrow> error option \<times> ChangeNotification list" where
  "observeDeep [] lg = (None, lg)"
| "observeDeep (ev # evs) lg =
     (case notification ev of
        Inl e \<Rightarrow> (Some e, lg)
      | Inr m \<Rightarrow> observeDeep evs (lg @ [m]))"

section \<open>The document and its nodes\<close>

text \<open>
  The state of one \<^verbatim>\<open>ServerXmlDocument\<close>: the tree under the root \<^verbatim>\<open>_y\<close>, the state of
  the undo manager, the number of identifiers generated, and the messages the sink got.
\<close>

record 'h doc =
  tree :: ynode
  history :: 'h
  generated :: nat
  notified :: "ChangeNotification list"

text \<open>
  A node of the tree is addressed by the child positions that lead to it from the root.
\<close>

fun getNode :: "ynode \<Rightarrow> nat list \<Rightarrow> ynode option" where
  "getNode t [] = Some t"
| "getNode (XmlElement nm at cs) (i # p) =
     (if i < length cs then getNode (cs ! i) p else None)"
| "getNode (XmlText d) (i # p) = None"

fun setNode :: "ynode \<Rightarrow> nat list \<Rightarrow> ynode \<Rightarrow> ynode" where
  "setNode t [] new = new"
| "setNode (XmlElement nm at cs) (i # p) new =
     (if i < length cs then XmlElement nm at (cs[i := setNode (cs ! i) p new])
      else XmlElement nm at cs)"
| "setNode (XmlText d) (i # p) new = XmlText d"

text \<open>
  \<^verbatim>\<open>findNode\<close>: the first node in document order whose \<^verbatim>\<open>$id\<close> is the string \<open>nodeID\<close>;
  the start node itself when \<open>nodeID\<close> is falsy. The result is the position of the node
  below the start node.
\<close>

fun findNode :: "string option \<Rightarrow> ynode \<Rightarrow> nat list option"
  and findNodeFrom :: "string option \<Rightarrow> ynode list \<Rightarrow> nat \<Rightarrow> nat list option"
where
  "findNode nodeID (XmlElement nm at cs) =
     (if \<not> truthyStr nodeID then Some []
      else if Some (getAttribute at ''$id'') = map_option JStr nodeID then Some []
      else findNodeFrom nodeID cs 0)"
| "findNode nodeID (XmlText d) = (if \<not> truthyStr nodeID then Some [] else None)"
| "findNodeFrom nodeID [] i = None"
| "findNodeFrom nodeID (e # es) i =
     (case findNode nodeID e of
        Some p \<Rightarrow> Some (i # p)
      | None \<Rightarrow> findNodeFrom nodeID es (Suc i))"

text \<open>
  The node a command works on is held by reference. While it is in the tree the reference
  is its position. Once \<^verbatim>\<open>doDelete\<close> has removed it, the engine shows the removed element
  with its node name only, without attributes or children, and what is written to it
  reaches neither the tree nor the observer.
\<close>

datatype targetRef = Attached "nat list" | Detached string

definition view :: "'h doc \<Rightarrow> targetRef \<Rightarrow> ynode" where
  "view d tg =
     (case tg of
        Attached p \<Rightarrow> (case getNode (tree d) p of
                         Some nd \<Rightarrow> nd
                       | None \<Rightarrow> XmlElement [] [] [])
      | Detached nm \<Rightarrow> XmlElement nm [] [])"

section \<open>The engine's tree primitives\<close>

text \<open>
  The primitives on child lists and attributes belong to the wrapped engine, not to the
  repository. They are written out as Yjs has them: each call is one transaction, the
  observer gets the transaction's events before the call returns, and the delta of an
  event on a child list is a retain entry (when the change is not at the start) followed
  by an insert or a delete entry.
\<close>

text \<open>
  One transaction on the target: the changed node is written back, the undo manager
  records the transaction, and the observer runs on the events before the primitive
  returns.
\<close>

definition commit ::
  "'h engine \<Rightarrow> targetRef \<Rightarrow> ynode \<Rightarrow> yevent list \<Rightarrow> 'h doc \<Rightarrow> error option \<times> 'h doc" where
  "commit eng tg new evs d =
     (case tg of
        Detached nm \<Rightarrow> (None, d)
      | Attached p \<Rightarrow>
          (let t' = setNode (tree d) p new;
               (err, lg) = observeDeep evs (notified d)
           in (err, d\<lparr>tree := t', history := track eng (tree d) t' (history d),
                       notified := lg\<rparr>)))"

definition retainEntry :: "nat \<Rightarrow> yelem_delta list" where
  "retainEntry index =
     (if index = 0 then []
      else [\<lparr> yd_insert = None, yd_retain = Some index, yd_delete = None \<rparr>])"

text \<open>
  \<^verbatim>\<open>element.insert(index, content)\<close>: fails beyond the end of the child list; an empty
  content changes nothing; otherwise the event's delta retains \<open>index\<close> children (when
  \<open>index > 0\<close>) and inserts the content.
\<close>

definition yInsert ::
  "'h engine \<Rightarrow> targetRef \<Rightarrow> nat \<Rightarrow> ynode list \<Rightarrow> 'h doc \<Rightarrow> error option \<times> 'h doc" where
  "yInsert eng tg index content d =
     (case view d tg of
        XmlText t \<Rightarrow> (Some TypeError, d)
      | XmlElement nm at cs \<Rightarrow>
          if index > length cs then (Some LengthExceeded, d)
          else if content = [] then (None, d)
          else commit eng tg (XmlElement nm at (take index cs @ content @ drop index cs))
                 [ElementEvent (tg = Attached []) at
                    (retainEntry index @
                     [\<lparr> yd_insert = Some (InsertArray content), yd_retain = None,
                        yd_delete = None \<rparr>]) []] d)"

text \<open>
  \<^verbatim>\<open>element.delete(index, length)\<close>: removes the children of the range that exist, and
  fails after that when the range reaches beyond the end of the child list.
\<close>

definition yDelete ::
  "'h engine \<Rightarrow> targetRef \<Rightarrow> nat \<Rightarrow> nat \<Rightarrow> 'h doc \<Rightarrow> error option \<times> 'h doc" where
  "yDelete eng tg index len d =
     (case view d tg of
        XmlText t \<Rightarrow> (Some TypeError, d)
      | XmlElement nm at cs \<Rightarrow>
          if len = 0 then (None, d)
          else
            (let removed = min len (length cs - index);
                 r = (if removed = 0 then (None, d)
                      else commit eng tg (XmlElement nm at (take index cs @ drop (index + len) cs))
                             [ElementEvent (tg = Attached []) at
                                (retainEntry index @
                                 [\<lparr> yd_insert = None, yd_retain = None,
                                    yd_delete = Some removed \<rparr>]) []] d)
             in if fst r = None \<and> length cs < index + len then (Some LengthExceeded, snd r)
                else r))"

text \<open>\<^verbatim>\<open>element.setAttribute(k, v)\<close> and \<^verbatim>\<open>element.removeAttribute(k)\<close>.\<close>

definition ySetAttribute ::
  "'h engine \<Rightarrow> targetRef \<Rightarrow> string \<Rightarrow> jsval \<Rightarrow> 'h doc \<Rightarrow> error option \<times> 'h doc" where
  "ySetAttribute eng tg k v d =
     (case view d tg of
        XmlText t \<Rightarrow> (Some TypeError, d)
      | XmlElement nm at cs \<Rightarrow>
          commit eng tg (XmlElement nm (setAttribute k v at) cs)
            [ElementEvent (tg = Attached []) (setAttribute k v at) []
               [(k, if hasAttribute at k then KUpdate else KAdd)]] d)"

definition yRemoveAttribute ::
  "'h engine \<Rightarrow> targetRef \<Rightarrow> string \<Rightarrow> 'h doc \<Rightarrow> error option \<times> 'h doc" where
  "yRemoveAttribute eng tg k d =
     (case view d tg of
        XmlText t \<Rightarrow> (Some TypeError, d)
      | XmlElement nm at cs \<Rightarrow>
          if hasAttribute at k
          then commit eng tg (XmlElement nm (removeAttribute k at) cs)
                 [ElementEvent (tg = Attached []) (removeAttribute k at) [] [(k, KDelete)]] d
          else (None, d))"

text \<open>
  A primitive of the text run that is the first child of the target, given as the
  function \<open>f\<close> of the engine on the run's content. The event is raised on the text run,
  so the observer reads the target as the run's parent.
\<close>

definition yText ::
  "'h engine \<Rightarrow> targetRef \<Rightarrow> (ytext_delta list \<Rightarrow> ytext_delta list \<times> ytext_delta list option)
     \<Rightarrow> ynode \<Rightarrow> 'h doc \<Rightarrow> error option \<times> 'h doc" where
  "yText eng tg f el d =
     (case el of
        XmlElement nm at (XmlText t # rest) \<Rightarrow>
          (let (t', ev) = f t
           in commit eng tg (XmlElement nm at (XmlText t' # rest))
                (case ev of None \<Rightarrow> [] | Some delta \<Rightarrow> [TextEvent (Some at) delta]) d)
      | _ \<Rightarrow> (Some TypeError, d))"

section \<open>The change applier\<close>

text \<open>
  A change command, field by field as \<^verbatim>\<open>AppliedChange\<close> declares it. An absent field is
  \<open>None\<close>; the three flags are tested for truthiness only, so an absent flag is \<open>False\<close>.
  Positions and lengths are natural numbers.
\<close>

record InsertChildren =
  ic_after :: "string option"
  ic_index :: "nat option"
  ic_children :: "nodespec list"

record DeleteChildren =
  dc_after :: "string option"
  dc_index :: "nat option"
  dc_length :: nat

record InsertText =
  it_index :: nat
  it_text :: string
  it_attributes :: "attrs option"

record FormatText =
  ft_from :: nat
  ft_length :: nat
  ft_attributes :: "attrs option"

record DeleteText =
  dt_index :: nat
  dt_length :: nat

record AppliedChange =
  nodeID :: "string option"
  delete :: bool
  insertChildren :: "InsertChildren option"
  deleteChildren :: "DeleteChildren option"
  removeAttributes :: "string list option"
  setAttributes :: "attrs option"
  insertText :: "InsertText option"
  formatText :: "FormatText option"
  deleteText :: "DeleteText option"
  undo :: bool
  redo :: bool

text \<open>
  \<^verbatim>\<open>doDelete\<close>: the root has no parent element. Otherwise the scan of the parent's
  children stops at the position of the node itself, which is the last step of the way
  to it, and one child is deleted there. A node that has been removed already is not
  among the children of its parent any more.
\<close>

definition doDelete :: "'h engine \<Rightarrow> targetRef \<Rightarrow> 'h doc \<Rightarrow> error option \<times> 'h doc" where
  "doDelete eng tg d =
     (case tg of
        Detached nm \<Rightarrow> (Some ElementNotAmongChildren, d)
      | Attached p \<Rightarrow>
          if p = [] then (Some CannotDeleteTopLevel, d)
          else (case view d (Attached (butlast p)) of
                  XmlText t \<Rightarrow> (Some CannotDeleteTopLevel, d)
                | XmlElement nm at cs \<Rightarrow>
                    if last p < length cs
                    then yDelete eng (Attached (butlast p)) (last p) 1 d
                    else (Some ElementNotAmongChildren, d)))"

text \<open>
  The loop of \<^verbatim>\<open>doInsertChildren\<close> and \<^verbatim>\<open>doDeleteChildren\<close> over the children: the
  position of the first child that is an element whose \<^verbatim>\<open>$id\<close> is the string \<open>after\<close>,
  counted from \<open>i\<close>.
\<close>

fun findAfter :: "string \<Rightarrow> ynode list \<Rightarrow> nat \<Rightarrow> nat option" where
  "findAfter after [] i = None"
| "findAfter after (XmlElement nm at cs # es) i =
     (if getAttribute at ''$id'' = JStr after then Some i else findAfter after es (Suc i))"
| "findAfter after (XmlText t # es) i = findAfter after es (Suc i)"

text \<open>
  \<^verbatim>\<open>element.insertAfter(ref, content)\<close> with \<open>ref\<close> the child at position \<open>j\<close>, and
  \<^verbatim>\<open>element.push(content)\<close>.
\<close>

definition yInsertAfter ::
  "'h engine \<Rightarrow> targetRef \<Rightarrow> nat \<Rightarrow> ynode list \<Rightarrow> 'h doc \<Rightarrow> error option \<times> 'h doc" where
  "yInsertAfter eng tg j content d = yInsert eng tg (Suc j) content d"

definition yPush ::
  "'h engine \<Rightarrow> targetRef \<Rightarrow> ynode list \<Rightarrow> 'h doc \<Rightarrow> error option \<times> 'h doc" where
  "yPush eng tg content d = yInsert eng tg (length (children (view d tg))) content d"

text \<open>
  The argument \<^verbatim>\<open>this.createNodes(children)\<close> of the three insertions: the nodes are
  built before the primitive \<open>k\<close> runs, and a failure to build them leaves the document
  as it is.
\<close>

definition withNodes ::
  "'h engine \<Rightarrow> nodespec list \<Rightarrow> (ynode list \<Rightarrow> 'h doc \<Rightarrow> error option \<times> 'h doc)
     \<Rightarrow> 'h doc \<Rightarrow> error option \<times> 'h doc" where
  "withNodes eng specs k d =
     (case createNodes eng specs (generated d) of
        Inl e \<Rightarrow> (Some e, d)
      | Inr (nodes, n) \<Rightarrow> k nodes (d\<lparr>generated := n\<rparr>))"

definition doInsertChildren ::
  "'h engine \<Rightarrow> targetRef \<Rightarrow> InsertChildren \<Rightarrow> 'h doc \<Rightarrow> error option \<times> 'h doc" where
  "doInsertChildren eng tg ic d =
     (case (if truthyStr (ic_after ic)
            then (case findAfter (the (ic_after ic)) (children (view d tg)) 0 of
                    None \<Rightarrow> Inl (UnableToFindChild (the (ic_after ic)))
                  | Some j \<Rightarrow> Inr (Some j))
            else Inr None) of
        Inl e \<Rightarrow> (Some e, d)
      | Inr (Some j) \<Rightarrow> withNodes eng (ic_children ic) (yInsertAfter eng tg j) d
      | Inr None \<Rightarrow>
          (case ic_index ic of
             Some index \<Rightarrow> withNodes eng (ic_children ic) (yInsert eng tg index) d
           | None \<Rightarrow> withNodes eng (ic_children ic) (yPush eng tg) d))"

definition doDeleteChildren ::
  "'h engine \<Rightarrow> targetRef \<Rightarrow> DeleteChildren \<Rightarrow> 'h doc \<Rightarrow> error option \<times> 'h doc" where
  "doDeleteChildren eng tg dc d =
     (if truthyStr (dc_after dc)
      then (case findAfter (the (dc_after dc)) (children (view d tg)) 0 of
              None \<Rightarrow> (Some (UnableToFindChild (the (dc_after dc))), d)
            | Some i \<Rightarrow> yDelete eng tg i (dc_length dc) d)
      else (case dc_index dc of
              None \<Rightarrow> (Some NoIndexSpecified, d)
            | Some index \<Rightarrow> yDelete eng tg index (dc_length dc) d))"

text \<open>The two loops over attribute names; each pass is a transaction of its own.\<close>

fun doRemoveAttributes ::
  "'h engine \<Rightarrow> targetRef \<Rightarrow> string list \<Rightarrow> 'h doc \<Rightarrow> error option \<times> 'h doc" where
  "doRemoveAttributes eng tg [] d = (None, d)"
| "doRemoveAttributes eng tg (k # ks) d =
     (case yRemoveAttribute eng tg k d of
        (Some e, d') \<Rightarrow> (Some e, d')
      | (None, d') \<Rightarrow> doRemoveAttributes eng tg ks d')"

fun setEach ::
  "'h engine \<Rightarrow> targetRef \<Rightarrow> attrs \<Rightarrow> string list \<Rightarrow> 'h doc \<Rightarrow> error option \<times> 'h doc" where
  "setEach eng tg kvs [] d = (None, d)"
| "setEach eng tg kvs (k # ks) d =
     (case ySetAttribute eng tg k (getAttribute kvs k) d of
        (Some e, d') \<Rightarrow> (Some e, d')
      | (None, d') \<Rightarrow> setEach eng tg kvs ks d')"

definition doSetAttributes ::
  "'h engine \<Rightarrow> targetRef \<Rightarrow> attrs \<Rightarrow> 'h doc \<Rightarrow> error option \<times> 'h doc" where
  "doSetAttributes eng tg kvs d = setEach eng tg kvs (map fst kvs) d"

text \<open>
  The three text sub-commands. Each tests the node name, then takes the first child for
  a text run without a test: with no first child the call goes through \<^verbatim>\<open>null\<close>; with
  an element as first child, \<^verbatim>\<open>insert\<close> is the child-list insertion given a string
  (which fails beyond the end of the list and on the string otherwise), \<^verbatim>\<open>format\<close> does
  not exist, and \<^verbatim>\<open>delete\<close> is the child-list deletion on that first child.
\<close>

definition doInsertText ::
  "'h engine \<Rightarrow> targetRef \<Rightarrow> InsertText \<Rightarrow> 'h doc \<Rightarrow> error option \<times> 'h doc" where
  "doInsertText eng tg it d =
     (if nodeName (view d tg) \<noteq> ''text'' then (Some OnlyInsertTextInTextNode, d)
      else (case children (view d tg) of
              XmlElement cn ca cc # rest \<Rightarrow>
                (Some (if length cc < it_index it then LengthExceeded else TypeError), d)
            | _ \<Rightarrow> yText eng tg (textInsert eng (it_index it) (it_text it) (it_attributes it))
                     (view d tg) d))"

definition doFormatText ::
  "'h engine \<Rightarrow> targetRef \<Rightarrow> FormatText \<Rightarrow> 'h doc \<Rightarrow> error option \<times> 'h doc" where
  "doFormatText eng tg ft d =
     (if nodeName (view d tg) \<noteq> ''text'' then (Some OnlyFormatTextInTextNode, d)
      else yText eng tg
             (textFormat eng (ft_from ft) (ft_length ft)
                (case ft_attributes ft of None \<Rightarrow> [] | Some a \<Rightarrow> a))
             (view d tg) d)"

definition doDeleteText ::
  "'h engine \<Rightarrow> targetRef \<Rightarrow> DeleteText \<Rightarrow> 'h doc \<Rightarrow> error option \<times> 'h doc" where
  "doDeleteText eng tg dt d =
     (if nodeName (view d tg) \<noteq> ''text'' then (Some OnlyDeleteTextInTextNode, d)
      else (case (children (view d tg), tg) of
              (XmlElement cn ca cc # rest, Attached p) \<Rightarrow>
                yDelete eng (Attached (p @ [0])) (dt_index dt) (dt_length dt) d
            | _ \<Rightarrow> yText eng tg (textDelete eng (dt_index dt) (dt_length dt)) (view d tg) d))"

text \<open>\<^verbatim>\<open>doUndo\<close> and \<^verbatim>\<open>doRedo\<close>: the undo manager changes the tree, the observer runs.\<close>

definition doUndo :: "'h engine \<Rightarrow> 'h doc \<Rightarrow> error option \<times> 'h doc" where
  "doUndo eng d =
     (let (t', h', evs) = undoStep eng (tree d) (history d);
          (err, lg) = observeDeep evs (notified d)
      in (err, d\<lparr>tree := t', history := h', notified := lg\<rparr>))"

definition doRedo :: "'h engine \<Rightarrow> 'h doc \<Rightarrow> error option \<times> 'h doc" where
  "doRedo eng d =
     (let (t', h', evs) = redoStep eng (tree d) (history d);
          (err, lg) = observeDeep evs (notified d)
      in (err, d\<lparr>tree := t', history := h', notified := lg\<rparr>))"

text \<open>
  The body of the loop of \<^verbatim>\<open>applyChanges\<close> is a sequence of guarded sub-actions on the
  node reference and the document. A throw ends the sequence and keeps the document as
  the sub-actions before it left it.
\<close>

type_synonym 'h step = "targetRef \<times> 'h doc \<Rightarrow> error option \<times> targetRef \<times> 'h doc"

fun runSteps :: "'h step list \<Rightarrow> targetRef \<times> 'h doc \<Rightarrow> error option \<times> targetRef \<times> 'h doc" where
  "runSteps [] s = (None, s)"
| "runSteps (f # fs) s =
     (case f s of
        (Some e, s') \<Rightarrow> (Some e, s')
      | (None, s') \<Rightarrow> runSteps fs s')"

text \<open>
  A sub-action that needs an element: skipped when its field is absent, a throw with
  \<open>e\<close> when the node is not an element, the action \<open>act\<close> otherwise.
\<close>

definition onElement ::
  "'a option \<Rightarrow> error \<Rightarrow> (targetRef \<Rightarrow> 'a \<Rightarrow> 'h doc \<Rightarrow> error option \<times> 'h doc) \<Rightarrow> 'h step" where
  "onElement field e act s =
     (case field of
        None \<Rightarrow> (None, s)
      | Some x \<Rightarrow>
          if \<not> isElement (view (snd s) (fst s)) then (Some e, s)
          else (case act (fst s) x (snd s) of (err, d') \<Rightarrow> (err, fst s, d')))"

definition stepDelete :: "'h engine \<Rightarrow> AppliedChange \<Rightarrow> 'h step" where
  "stepDelete eng change s =
     (if delete change
      then (case doDelete eng (fst s) (snd s) of
              (Some e, d') \<Rightarrow> (Some e, fst s, d')
            | (None, d') \<Rightarrow> (None, Detached (nodeName (view (snd s) (fst s))), d'))
      else (None, s))"

definition stepUndo :: "'h engine \<Rightarrow> AppliedChange \<Rightarrow> 'h step" where
  "stepUndo eng change s =
     (if undo change then (case doUndo eng (snd s) of (err, d') \<Rightarrow> (err, fst s, d'))
      else (None, s))"

definition stepRedo :: "'h engine \<Rightarrow> AppliedChange \<Rightarrow> 'h step" where
  "stepRedo eng change s =
     (if redo change then (case doRedo eng (snd s) of (err, d') \<Rightarrow> (err, fst s, d'))
      else (None, s))"

definition subActions :: "'h engine \<Rightarrow> AppliedChange \<Rightarrow> 'h step list" where
  "subActions eng change =
     [ stepDelete eng change,
       onElement (insertChildren change) CannotInsertChildrenIntoText (doInsertChildren eng),
       onElement (deleteChildren change) CannotDeleteChildrenOfText (doDeleteChildren eng),
       onElement (removeAttributes change) CannotRemoveAttributesFromText
         (doRemoveAttributes eng),
       onElement (setAttributes change) CannotSetAttributesOnText (doSetAttributes eng),
       onElement (insertText change) NodeIsNotTextElement (doInsertText eng),
       onElement (formatText change) NodeIsNotTextElement (doFormatText eng),
       onElement (deleteText change) NodeIsNotTextElement (doDeleteText eng),
       stepUndo eng change,
       stepRedo eng change ]"

text \<open>
  One pass of the loop: the node is the root when \<^verbatim>\<open>change.nodeID\<close> is falsy, and the
  result of \<^verbatim>\<open>findNode\<close> from the root otherwise.
\<close>

definition applyChange :: "'h engine \<Rightarrow> AppliedChange \<Rightarrow> 'h doc \<Rightarrow> error option \<times> 'h doc" where
  "applyChange eng change d =
     (case (if truthyStr (nodeID change) then findNode (nodeID change) (tree d) else Some []) of
        None \<Rightarrow> (Some (ElementNotFound (the (nodeID change))), d)
      | Some p \<Rightarrow>
          (case runSteps (subActions eng change) (Attached p, d) of
             (err, tg, d') \<Rightarrow> (err, d')))"

text \<open>
  \<^verbatim>\<open>applyChanges\<close>: the result is the error thrown, if any, and the document as the call
  leaves it.
\<close>

fun applyChanges ::
  "'h engine \<Rightarrow> AppliedChange list \<Rightarrow> 'h doc \<Rightarrow> error option \<times> 'h doc" where
  "applyChanges eng [] d = (None, d)"
| "applyChanges eng (change # rest) d =
     (case applyChange eng change d of
        (Some e, d') \<Rightarrow> (Some e, d')
      | (None, d') \<Rightarrow> applyChanges eng rest d')"

section \<open>Notions the properties are stated with\<close>

text \<open>A child that is an element whose \<^verbatim>\<open>$id\<close> is the string \<open>a\<close>.\<close>

fun hasId :: "string \<Rightarrow> ynode \<Rightarrow> bool" where
  "hasId a (XmlElement nm at cs) = (getAttribute at ''$id'' = JStr a)"
| "hasId a (XmlText t) = False"

text \<open>
  The child position \<^verbatim>\<open>doInsertChildren\<close> passes to the engine for a target with the
  children \<open>cs\<close>: behind the child \<^verbatim>\<open>after\<close> names, else \<^verbatim>\<open>index\<close>, else the end.
\<close>

definition insertPosition :: "InsertChildren \<Rightarrow> ynode list \<Rightarrow> nat option" where
  "insertPosition ic cs =
     (if truthyStr (ic_after ic) then map_option Suc (findAfter (the (ic_after ic)) cs 0)
      else (case ic_index ic of Some index \<Rightarrow> Some index | None \<Rightarrow> Some (length cs)))"

text \<open>
  The message for an insertion of \<open>nodes\<close> at child position \<open>pos\<close> of an element with
  the attributes \<open>at\<close>: a retain entry for the offset (none at offset 0), then the
  entry with the serialized nodes.
\<close>

definition insertMessage :: "bool \<Rightarrow> attrs \<Rightarrow> nat \<Rightarrow> ynode list \<Rightarrow> ChangeNotification" where
  "insertMessage isRoot at pos nodes =
     \<lparr> msg_root = isRoot, msg_target = getAttribute at ''$id'',
       msg_elements =
         (if pos = 0 then [] else [\<lparr> el_retain = Some pos, el_insert = None, el_delete = None \<rparr>]) @
         [\<lparr> el_retain = None, el_insert = Some (map serialize nodes), el_delete = None \<rparr>],
       msg_attributes = \<lparr> attr_set = [], attr_delete = [] \<rparr>,
       msg_text = [] \<rparr>"

text \<open>
  What the round trip compares: the tag name, the attributes as a map from names to
  values, and the children in order, at every depth. The content of a text run is not
  part of it.
\<close>

datatype skel = SkElement string "string \<rightharpoonup> jsval" "skel list" | SkText

fun skeleton :: "ynode \<Rightarrow> skel" where
  "skeleton (XmlElement nm at cs) = SkElement nm (map_of at) (map skeleton cs)"
| "skeleton (XmlText d) = SkText"

fun retag :: "string \<Rightarrow> skel \<Rightarrow> skel" where
  "retag t (SkElement nm m cs) = SkElement t m (map (retag t) cs)"
| "retag t SkText = SkText"

fun everyElementHasId :: "ynode \<Rightarrow> bool" where
  "everyElementHasId (XmlElement nm at cs) =
     (hasAttribute at ''$id'' \<and> list_all everyElementHasId cs)"
| "everyElementHasId (XmlText d) = True"

text \<open>
  For the proofs about a whole command: the node a reference stands for is an element
  named \<open>nm\<close>; a document only has messages added; a document is unchanged or the
  result of one transaction on the node; and both of the first two together.
\<close>

definition targetNamed :: "string \<Rightarrow> targetRef \<Rightarrow> 'h doc \<Rightarrow> bool" where
  "targetNamed nm tg d =
     (case tg of
        Attached p \<Rightarrow> (\<exists>at cs. getNode (tree d) p = Some (XmlElement nm at cs))
      | Detached n \<Rightarrow> n = nm)"

definition extends :: "'h doc \<Rightarrow> 'h doc \<Rightarrow> bool" where
  "extends d d' = (\<exists>ms. notified d' = notified d @ ms)"

definition touches :: "'h engine \<Rightarrow> targetRef \<Rightarrow> 'h doc \<Rightarrow> 'h doc \<Rightarrow> bool" where
  "touches eng tg d d' =
     (d' = d \<or>
      (\<exists>at cs evs err.
         commit eng tg (XmlElement (nodeName (view d tg)) at cs) evs d = (err, d')))"

definition steady :: "string \<Rightarrow> targetRef \<Rightarrow> 'h doc \<Rightarrow> 'h doc \<Rightarrow> bool" where
  "steady nm tg d d' = (extends d d' \<and> (targetNamed nm tg d \<longrightarrow> targetNamed nm tg d'))"

text \<open>The sub-actions in two parts: those on the tree, and the rest.\<close>

definition treeActions :: "'h engine \<Rightarrow> AppliedChange \<Rightarrow> 'h step list" where
  "treeActions eng change =
     [ stepDelete eng change,
       onElement (insertChildren change) CannotInsertChildrenIntoText (doInsertChildren eng),
       onElement (deleteChildren change) CannotDeleteChildrenOfText (doDeleteChildren eng),
       onElement (removeAttributes change) CannotRemoveAttributesFromText
         (doRemoveAttributes eng),
       onElement (setAttributes change) CannotSetAttributesOnText (doSetAttributes eng) ]"

definition textActions :: "'h engine \<Rightarrow> AppliedChange \<Rightarrow> 'h step list" where
  "textActions eng change =
     [ onElement (insertText change) NodeIsNotTextElement (doInsertText eng),
       onElement (formatText change) NodeIsNotTextElement (doFormatText eng),
       onElement (deleteText change) NodeIsNotTextElement (doDeleteText eng),
       stepUndo eng change,
       stepRedo eng change ]"

section \<open>Sample inputs\<close>

text \<open>
  An engine to run the model on concrete inputs: identifiers \<^verbatim>\<open>uuid-\<close>, \<^verbatim>\<open>uuid-i\<close>, ...;
  a delta applied to a run is appended to it; the text primitives and the undo manager
  do nothing.
\<close>

definition sampleEngine :: "unit engine" where
  "sampleEngine =
     \<lparr> uuid = (\<lambda>n. ''uuid-'' @ replicate n CHR ''i''),
       defaultNodeName = ''UNDEFINED'',
       applyDelta = (\<lambda>delta t. t @ delta),
       textInsert = (\<lambda>i s a t. (t, None)),
       textFormat = (\<lambda>i l a t. (t, None)),
       textDelete = (\<lambda>i l t. (t, None)),
       track = (\<lambda>old new h. h),
       undoStep = (\<lambda>t h. (t, h, [])),
       redoStep = (\<lambda>t h. (t, h, [])) \<rparr>"

definition emptyChange :: AppliedChange where
  "emptyChange =
     \<lparr> nodeID = None, delete = False, insertChildren = None, deleteChildren = None,
       removeAttributes = None, setAttributes = None, insertText = None, formatText = None,
       deleteText = None, undo = False, redo = False \<rparr>"

definition newDoc :: "ynode \<Rightarrow> unit doc" where
  "newDoc t = \<lparr> tree = t, history = (), generated = 0, notified = [] \<rparr>"

text \<open>
  Two paragraphs \<^verbatim>\<open>a\<close> and \<^verbatim>\<open>b\<close> under a root without identifier; the item
  \<^verbatim>\<open>{element: {name: "div", attributes: {id: "c1"}}}\<close> and the node built from it.
\<close>

definition nodeA :: ynode where
  "nodeA = XmlElement ''p'' [(''$id'', JStr ''a'')] []"

definition nodeB :: ynode where
  "nodeB = XmlElement ''p'' [(''$id'', JStr ''b'')] []"

definition rootAB :: "unit doc" where
  "rootAB = newDoc (XmlElement ''xml'' [] [nodeA, nodeB])"

definition divSpec :: nodespec where
  "divSpec = SpecElement (Some ''div'') None (Some [(''id'', JStr ''c1'')]) None"

definition divNode :: ynode where
  "divNode = XmlElement ''div'' [(''$id'', JStr ''c1''), (''id'', JStr ''c1'')] []"

definition insertDiv :: AppliedChange where
  "insertDiv =
     emptyChange\<lparr> insertChildren :=
       Some \<lparr> ic_after = None, ic_index = Some 0, ic_children = [divSpec] \<rparr> \<rparr>"

definition withDiv :: "unit doc" where
  "withDiv =
     \<lparr> tree = XmlElement ''xml'' [] [divNode],
       history = (), generated = 0,
       notified = [insertMessage True [] 0 [divNode]] \<rparr>"

section \<open>Evaluation at concrete inputs\<close>

lemmas eval_defs =
  sampleEngine_def emptyChange_def newDoc_def nodeA_def nodeB_def rootAB_def divSpec_def
  divNode_def insertDiv_def withDiv_def insertMessage_def
  applyChange_def subActions_def stepDelete_def onElement_def stepUndo_def stepRedo_def
  doInsertChildren_def doDeleteChildren_def doDelete_def withNodes_def truthyStr_def
  truthyNum_def view_def yInsert_def yInsertAfter_def yPush_def yDelete_def commit_def
  retainEntry_def elementDelta_def explicitId_def getAttribute_def setAttribute_def
  copyAttributes_def newXmlElement_def doUndo_def doRedo_def hasAttribute_def

section \<open>Attribute maps\<close>

lemma map_of_setAttribute: "map_of (setAttribute k v a) = (map_of a)(k \<mapsto> v)"
  by (simp add: setAttribute_def update_conv')

lemma getAttribute_setAttribute: "getAttribute (setAttribute k v a) k = v"
  by (simp add: getAttribute_def map_of_setAttribute)

lemma map_of_fold_set:
  "set ks \<subseteq> fst ` set kvs \<Longrightarrow>
   map_of (fold (\<lambda>k. setAttribute k (getAttribute kvs k)) ks a) =
   (\<lambda>x. if x \<in> set ks then map_of kvs x else map_of a x)"
proof (induction ks arbitrary: a)
  case Nil
  then show ?case by simp
next
  case (Cons k ks)
  from Cons.prems obtain v where v: "map_of kvs k = Some v"
    by (metis (no_types, lifting) domD dom_map_of_conv_image_fst list.set_intros(1) subsetD)
  have "set ks \<subseteq> fst ` set kvs" using Cons.prems by simp
  from Cons.IH[OF this] v show ?case
    by (auto simp: map_of_setAttribute getAttribute_def fun_eq_iff)
qed

lemma map_of_copyAttributes: "map_of (copyAttributes kvs a) = map_of a ++ map_of kvs"
proof -
  have "map_of (copyAttributes kvs a) = (\<lambda>x. if x \<in> set (map fst kvs) then map_of kvs x else map_of a x)"
    unfolding copyAttributes_def by (rule map_of_fold_set) simp
  also have "\<dots> = map_of a ++ map_of kvs"
  proof (rule ext)
    fix x
    show "(if x \<in> set (map fst kvs) then map_of kvs x else map_of a x) = (map_of a ++ map_of kvs) x"
    proof (cases "map_of kvs x")
      case None
      then have "x \<notin> fst ` set kvs" by (simp add: map_of_eq_None_iff)
      with None show ?thesis by (simp add: map_add_def)
    next
      case (Some v)
      then have "x \<in> fst ` set kvs" by (metis map_of_eq_None_iff option.distinct(1))
      with Some show ?thesis by (simp add: map_add_def)
    qed
  qed
  finally show ?thesis .
qed

lemma explicitId_serialized:
  "hasAttribute at ''$id'' \<Longrightarrow>
   map_of (copyAttributes at (setAttribute ''$id'' v [])) = map_of at"
  by (auto simp: map_of_copyAttributes map_of_setAttribute hasAttribute_def fun_eq_iff map_add_def split: option.splits)

lemma builtAttributes:
  "map_of (case at of None \<Rightarrow> setAttribute ''$id'' ident []
           | Some kvs \<Rightarrow> copyAttributes kvs (setAttribute ''$id'' ident [])) ''$id'' =
     Some (if (case at of None \<Rightarrow> False | Some kvs \<Rightarrow> hasAttribute kvs ''$id'')
           then getAttribute (the at) ''$id'' else ident)"
  by (cases at)
     (auto simp: map_of_copyAttributes map_of_setAttribute hasAttribute_def getAttribute_def
        map_add_def split: option.splits)

section \<open>C1: serialize, then createNodes\<close>

lemma createNodes_serialize_list:
  assumes "\<And>T n. T \<in> set Ts \<Longrightarrow> everyElementHasId T \<Longrightarrow>
             \<exists>T' n'. createNode eng (serialize T) n = Inr (T', n') \<and>
                     skeleton T' = retag (defaultNodeName eng) (skeleton T)"
    and "list_all everyElementHasId Ts"
  shows "\<exists>Ts' n'. createNodes eng (map serialize Ts) n = Inr (Ts', n') \<and>
           map skeleton Ts' = map (retag (defaultNodeName eng) \<circ> skeleton) Ts"
  using assms
proof (induction Ts arbitrary: n)
  case Nil
  then show ?case by simp
next
  case (Cons T Ts)
  have "everyElementHasId T" using Cons.prems(2) by simp
  from Cons.prems(1)[OF _ this, of n] obtain T' n1 where
    1: "createNode eng (serialize T) n = Inr (T', n1)"
       "skeleton T' = retag (defaultNodeName eng) (skeleton T)"
    by auto
  have "\<exists>Ts' n'. createNodes eng (map serialize Ts) n1 = Inr (Ts', n') \<and>
           map skeleton Ts' = map (retag (defaultNodeName eng) \<circ> skeleton) Ts"
    using Cons.prems by (intro Cons.IH) auto
  then obtain Ts' n2 where
    2: "createNodes eng (map serialize Ts) n1 = Inr (Ts', n2)"
       "map skeleton Ts' = map (retag (defaultNodeName eng) \<circ> skeleton) Ts"
    by blast
  from 1 2 show ?case by simp
qed

lemma createNode_serialize:
  "everyElementHasId T \<Longrightarrow>
   \<exists>T' n'. createNode eng (serialize T) n = Inr (T', n') \<and>
           skeleton T' = retag (defaultNodeName eng) (skeleton T)"
proof (induction T arbitrary: n)
  case (XmlElement nm at cs)
  obtain ident n1 where id: "(case explicitId (Some at) of
                           Some v \<Rightarrow> (v, n)
                         | None \<Rightarrow> (JStr (uuid eng n), Suc n)) = (ident, n1)"
    by (cases "explicitId (Some at)") auto
  have "\<exists>Ts' n'. createNodes eng (map serialize cs) n1 = Inr (Ts', n') \<and>
           map skeleton Ts' = map (retag (defaultNodeName eng) \<circ> skeleton) cs"
    using XmlElement by (intro createNodes_serialize_list) auto
  then obtain cs' n2 where cs': "createNodes eng (map serialize cs) n1 = Inr (cs', n2)"
     "map skeleton cs' = map (retag (defaultNodeName eng) \<circ> skeleton) cs" by blast
  have at: "map_of (copyAttributes at (setAttribute ''$id'' ident [])) = map_of at"
    using XmlElement.prems by (simp add: explicitId_serialized)
  show ?case using id cs' at
    by (simp add: newXmlElement_def)
next
  case (XmlText d)
  then show ?case by simp
qed

text \<open>
  C1, as the code has it. For every subtree \<open>T\<close> in which every element carries a
  \<^verbatim>\<open>$id\<close> attribute, \<^verbatim>\<open>createNodes\<close> applied to \<^verbatim>\<open>serialize(T)\<close> succeeds and builds one
  tree with the attribute maps of \<open>T\<close> (the \<^verbatim>\<open>$id\<close> of every element is the one \<open>T\<close>
  has) and the child structure of \<open>T\<close>, at all depths. The tag names do not come back:
  \<^verbatim>\<open>serialize\<close> writes the tag as \<^verbatim>\<open>tagName\<close>, \<^verbatim>\<open>createNodes\<close> reads \<^verbatim>\<open>name\<close>, so every
  rebuilt element has the constructor's default node name.
\<close>

theorem createNodes_serialize_roundtrip:
  assumes "everyElementHasId T"
  shows "\<exists>T' n'. createNodes eng [serialize T] n = Inr ([T'], n') \<and>
           skeleton T' = retag (defaultNodeName eng) (skeleton T)"
proof -
  from createNode_serialize[OF assms, of eng n] obtain T' n' where
    "createNode eng (serialize T) n = Inr (T', n')"
    "skeleton T' = retag (defaultNodeName eng) (skeleton T)"
    by blast
  then show ?thesis by simp
qed

theorem createNodes_serialize_roundtrip_witness:
  "everyElementHasId (XmlElement ''xml'' [(''$id'', JStr ''r'')] [nodeA, XmlText []])
   \<and> (\<exists>T' n'. createNodes sampleEngine
                  [serialize (XmlElement ''xml'' [(''$id'', JStr ''r'')] [nodeA, XmlText []])] 0
                = Inr ([T'], n')
              \<and> skeleton T' =
                  retag ''UNDEFINED''
                    (skeleton (XmlElement ''xml'' [(''$id'', JStr ''r'')] [nodeA, XmlText []])))"
proof -
  have h: "everyElementHasId (XmlElement ''xml'' [(''$id'', JStr ''r'')] [nodeA, XmlText []])"
    by (simp add: nodeA_def hasAttribute_def)
  have dn: "defaultNodeName sampleEngine = ''UNDEFINED''" by (simp add: sampleEngine_def)
  from h createNodes_serialize_roundtrip [OF h, of sampleEngine 0, unfolded dn]
  show ?thesis by (rule conjI)
qed

text \<open>
  The claim as the specification states it fails on the tag name: the paragraph \<^verbatim>\<open>a\<close>
  comes back as an element named \<^verbatim>\<open>UNDEFINED\<close>.
\<close>

theorem createNodes_serialize_tag_counterexample:
  "createNodes sampleEngine [serialize nodeA] 0
     = Inr ([XmlElement ''UNDEFINED'' [(''$id'', JStr ''a'')] []], 1)
   \<and> skeleton (XmlElement ''UNDEFINED'' [(''$id'', JStr ''a'')] []) \<noteq> skeleton nodeA"
  by (simp add: eval_defs)

section \<open>The course of a command\<close>

lemma extends_refl: "extends d d"
  by (simp add: extends_def)

lemma extends_trans: "extends d d1 \<Longrightarrow> extends d1 d2 \<Longrightarrow> extends d d2"
  by (auto simp: extends_def)

lemma getNode_setNode:
  "getNode t p = Some x \<Longrightarrow> getNode (setNode t p new) p = Some new"
  by (induction t p arbitrary: x rule: getNode.induct) (auto split: if_splits)

lemma view_attached: "getNode (tree d) p = Some x \<Longrightarrow> view d (Attached p) = x"
  by (simp add: view_def)

lemma view_generated: "view (d\<lparr>generated := n\<rparr>) tg = view d tg"
  by (cases tg) (simp_all add: view_def)

lemma observeDeep_extends:
  "observeDeep evs lg = (err, lg') \<Longrightarrow> \<exists>ms. lg' = lg @ ms"
proof (induction evs arbitrary: lg)
  case Nil
  then show ?case by simp
next
  case (Cons ev evs)
  show ?case
  proof (cases "notification ev")
    case (Inl e)
    with Cons.prems show ?thesis by simp
  next
    case (Inr m)
    with Cons.prems have "observeDeep evs (lg @ [m]) = (err, lg')" by simp
    from Cons.IH[OF this] obtain ms where "lg' = (lg @ [m]) @ ms" by blast
    then have "lg' = lg @ (m # ms)" by simp
    then show ?thesis by blast
  qed
qed

lemma commit_attached:
  "commit eng (Attached p) new evs d =
     (fst (observeDeep evs (notified d)),
      d\<lparr>tree := setNode (tree d) p new,
        history := track eng (tree d) (setNode (tree d) p new) (history d),
        notified := snd (observeDeep evs (notified d))\<rparr>)"
  by (simp add: commit_def Let_def split: prod.splits)

lemma commit_extends: "commit eng tg new evs d = (err, d') \<Longrightarrow> extends d d'"
proof (cases tg)
  case (Attached p)
  assume "commit eng tg new evs d = (err, d')"
  with Attached have d': "d' = d\<lparr>tree := setNode (tree d) p new,
        history := track eng (tree d) (setNode (tree d) p new) (history d),
        notified := snd (observeDeep evs (notified d))\<rparr>"
    by (simp add: commit_attached)
  obtain e lg where "observeDeep evs (notified d) = (e, lg)" by (cases "observeDeep evs (notified d)")
  with observeDeep_extends[OF this] d' show ?thesis by (auto simp: extends_def)
next
  case (Detached n)
  assume "commit eng tg new evs d = (err, d')"
  with Detached show ?thesis by (simp add: commit_def extends_refl)
qed

lemma commit_named:
  assumes "commit eng tg (XmlElement nm at cs) evs d = (err, d')" and "targetNamed nm tg d"
  shows "targetNamed nm tg d'"
proof (cases tg)
  case (Attached p)
  with assms(2) obtain x where "getNode (tree d) p = Some x" by (auto simp: targetNamed_def)
  from getNode_setNode[OF this] assms(1) Attached show ?thesis
    by (auto simp: commit_attached targetNamed_def)
next
  case (Detached n)
  with assms show ?thesis by (simp add: commit_def targetNamed_def)
qed

lemma view_named:
  "targetNamed nm tg d \<Longrightarrow> \<exists>at cs. view d tg = XmlElement nm at cs"
  by (auto simp: targetNamed_def view_def split: targetRef.splits)

lemma touches_extends: "touches eng tg d d' \<Longrightarrow> extends d d'"
  by (auto simp: touches_def extends_refl dest: commit_extends)

lemma touches_named:
  assumes "touches eng tg d d'" and "targetNamed nm tg d"
  shows "targetNamed nm tg d'"
proof -
  from view_named[OF assms(2)] have "nodeName (view d tg) = nm" by auto
  with assms show ?thesis by (auto simp: touches_def dest: commit_named)
qed

lemma yInsert_touches:
  "yInsert eng tg index content d = (err, d') \<Longrightarrow> touches eng tg d d'"
  by (cases "view d tg") (auto simp: yInsert_def touches_def split: if_splits)

lemma yDelete_touches:
  assumes "yDelete eng tg index len d = (err, d')"
  shows "touches eng tg d d'"
proof (cases "view d tg")
  case (XmlText t)
  with assms show ?thesis by (simp add: yDelete_def touches_def)
next
  case (XmlElement nm at cs)
  show ?thesis
  proof (cases "len = 0 \<or> min len (length cs - index) = 0")
    case True
    with assms XmlElement have "d' = d" by (auto simp: yDelete_def Let_def split: if_splits)
    then show ?thesis by (simp add: touches_def)
  next
    case False
    obtain evs where evs: "evs = [ElementEvent (tg = Attached []) at
                                (retainEntry index @
                                 [\<lparr> yd_insert = None, yd_retain = None,
                                    yd_delete = Some (min len (length cs - index)) \<rparr>]) []]" by simp
    obtain e1 d1 where c: "commit eng tg (XmlElement nm at (take index cs @ drop (index + len) cs)) evs d = (e1, d1)"
      by (cases "commit eng tg (XmlElement nm at (take index cs @ drop (index + len) cs)) evs d")
    with assms XmlElement False evs have "d' = d1"
      by (auto simp: yDelete_def Let_def split: if_splits)
    with c XmlElement show ?thesis unfolding touches_def by auto
  qed
qed

lemma ySetAttribute_touches:
  "ySetAttribute eng tg k v d = (err, d') \<Longrightarrow> touches eng tg d d'"
  by (cases "view d tg") (auto simp: ySetAttribute_def touches_def)

lemma yRemoveAttribute_touches:
  "yRemoveAttribute eng tg k d = (err, d') \<Longrightarrow> touches eng tg d d'"
  by (cases "view d tg") (auto simp: yRemoveAttribute_def touches_def split: if_splits)

lemma yText_touches:
  assumes "yText eng tg f (view d tg) d = (err, d')"
  shows "touches eng tg d d'"
proof (cases "\<exists>nm at t rest. view d tg = XmlElement nm at (XmlText t # rest)")
  case False
  with assms have "d' = d"
    by (auto simp: yText_def split: list.splits ynode.splits)
  then show ?thesis by (simp add: touches_def)
next
  case True
  then obtain nm at t rest where v: "view d tg = XmlElement nm at (XmlText t # rest)" by blast
  obtain t' ev where f: "f t = (t', ev)" by (cases "f t")
  with assms v show ?thesis unfolding touches_def by (auto simp: yText_def)
qed

lemma steady_refl: "steady nm tg d d"
  by (simp add: steady_def extends_refl)

lemma steady_trans: "steady nm tg d d1 \<Longrightarrow> steady nm tg d1 d2 \<Longrightarrow> steady nm tg d d2"
  by (auto simp: steady_def intro: extends_trans)

lemma touches_steady: "touches eng tg d d' \<Longrightarrow> steady nm tg d d'"
  by (auto simp: steady_def intro: touches_extends touches_named)

lemma generated_steady: "steady nm tg d (d\<lparr>generated := n\<rparr>)"
  by (cases tg) (auto simp: steady_def extends_def targetNamed_def)

lemma withNodes_steady:
  assumes "\<And>nodes d0 err d'. k nodes d0 = (err, d') \<Longrightarrow> steady nm tg d0 d'"
      and "withNodes eng specs k d = (err, d')"
  shows "steady nm tg d d'"
proof (cases "createNodes eng specs (generated d)")
  case (Inl e)
  with assms(2) show ?thesis by (simp add: withNodes_def steady_refl)
next
  case (Inr r)
  obtain nodes n where "r = (nodes, n)" by (cases r)
  with Inr assms(2) have "k nodes (d\<lparr>generated := n\<rparr>) = (err, d')" by (simp add: withNodes_def)
  from assms(1)[OF this] generated_steady[of nm tg d n] show ?thesis by (rule steady_trans[rotated])
qed

lemma doInsertChildren_steady:
  assumes "doInsertChildren eng tg ic d = (err, d')"
  shows "steady nm tg d d'"
proof -
  have a: "\<And>j nodes d0 err d'. yInsertAfter eng tg j nodes d0 = (err, d') \<Longrightarrow> steady nm tg d0 d'"
    by (auto simp: yInsertAfter_def dest!: yInsert_touches intro: touches_steady)
  have b: "\<And>i nodes d0 err d'. yInsert eng tg i nodes d0 = (err, d') \<Longrightarrow> steady nm tg d0 d'"
    by (auto dest!: yInsert_touches intro: touches_steady)
  have c: "\<And>nodes d0 err d'. yPush eng tg nodes d0 = (err, d') \<Longrightarrow> steady nm tg d0 d'"
    by (auto simp: yPush_def dest!: yInsert_touches intro: touches_steady)
  from assms show ?thesis
    unfolding doInsertChildren_def
    by (auto split: if_splits option.splits sum.splits simp: steady_refl
        intro: withNodes_steady[OF a] withNodes_steady[OF b] withNodes_steady[OF c])
qed

lemma doDeleteChildren_steady:
  "doDeleteChildren eng tg dc d = (err, d') \<Longrightarrow> steady nm tg d d'"
  unfolding doDeleteChildren_def
  by (auto split: if_splits option.splits simp: steady_refl dest!: yDelete_touches intro: touches_steady)

lemma doRemoveAttributes_steady:
  "doRemoveAttributes eng tg ks d = (err, d') \<Longrightarrow> steady nm tg d d'"
proof (induction ks arbitrary: d)
  case Nil
  then show ?case by (simp add: steady_refl)
next
  case (Cons k ks)
  obtain e1 d1 where 1: "yRemoveAttribute eng tg k d = (e1, d1)" by (cases "yRemoveAttribute eng tg k d")
  then have s1: "steady nm tg d d1" by (auto dest!: yRemoveAttribute_touches intro: touches_steady)
  show ?case
  proof (cases e1)
    case None
    with 1 Cons.prems have "doRemoveAttributes eng tg ks d1 = (err, d')" by simp
    from steady_trans[OF s1 Cons.IH[OF this]] show ?thesis .
  next
    case (Some e)
    with 1 Cons.prems s1 show ?thesis by simp
  qed
qed

lemma setEach_steady:
  "setEach eng tg kvs ks d = (err, d') \<Longrightarrow> steady nm tg d d'"
proof (induction ks arbitrary: d)
  case Nil
  then show ?case by (simp add: steady_refl)
next
  case (Cons k ks)
  obtain e1 d1 where 1: "ySetAttribute eng tg k (getAttribute kvs k) d = (e1, d1)"
    by (cases "ySetAttribute eng tg k (getAttribute kvs k) d")
  then have s1: "steady nm tg d d1" by (auto dest!: ySetAttribute_touches intro: touches_steady)
  show ?case
  proof (cases e1)
    case None
    with 1 Cons.prems have "setEach eng tg kvs ks d1 = (err, d')" by simp
    from steady_trans[OF s1 Cons.IH[OF this]] show ?thesis .
  next
    case (Some e)
    with 1 Cons.prems s1 show ?thesis by simp
  qed
qed

lemma doSetAttributes_steady:
  "doSetAttributes eng tg kvs d = (err, d') \<Longrightarrow> steady nm tg d d'"
  by (auto simp: doSetAttributes_def dest: setEach_steady)

lemma doUndo_extends: "doUndo eng d = (err, d') \<Longrightarrow> extends d d'"
proof -
  assume a: "doUndo eng d = (err, d')"
  obtain t' h' evs where u: "undoStep eng (tree d) (history d) = (t', h', evs)"
    by (cases "undoStep eng (tree d) (history d)") auto
  obtain e lg where o: "observeDeep evs (notified d) = (e, lg)" by (cases "observeDeep evs (notified d)")
  from a u o have "notified d' = lg" by (auto simp: doUndo_def)
  with observeDeep_extends[OF o] show ?thesis by (simp add: extends_def)
qed

lemma doRedo_extends: "doRedo eng d = (err, d') \<Longrightarrow> extends d d'"
proof -
  assume a: "doRedo eng d = (err, d')"
  obtain t' h' evs where u: "redoStep eng (tree d) (history d) = (t', h', evs)"
    by (cases "redoStep eng (tree d) (history d)") auto
  obtain e lg where o: "observeDeep evs (notified d) = (e, lg)" by (cases "observeDeep evs (notified d)")
  from a u o have "notified d' = lg" by (auto simp: doRedo_def)
  with observeDeep_extends[OF o] show ?thesis by (simp add: extends_def)
qed

lemma doInsertText_extends: "doInsertText eng tg it d = (err, d') \<Longrightarrow> extends d d'"
  unfolding doInsertText_def
  by (auto split: if_splits list.splits ynode.splits simp: extends_refl
      dest!: yText_touches intro: touches_extends)

lemma doFormatText_extends: "doFormatText eng tg ft d = (err, d') \<Longrightarrow> extends d d'"
  unfolding doFormatText_def
  by (auto split: if_splits simp: extends_refl dest!: yText_touches intro: touches_extends)

lemma doDeleteText_extends: "doDeleteText eng tg dt d = (err, d') \<Longrightarrow> extends d d'"
  unfolding doDeleteText_def
  by (auto split: if_splits list.splits ynode.splits targetRef.splits simp: extends_refl
      dest!: yText_touches yDelete_touches intro: touches_extends)

lemma doDelete_extends: "doDelete eng tg d = (err, d') \<Longrightarrow> extends d d'"
  unfolding doDelete_def
  by (auto split: if_splits ynode.splits targetRef.splits simp: extends_refl
      dest!: yDelete_touches intro: touches_extends)

lemma onElement_extends:
  assumes "\<And>tg x d err d'. act tg x d = (err, d') \<Longrightarrow> extends d d'"
      and "onElement field e act (tg, d) = (err, tg', d')"
  shows "extends d d'"
  using assms(2) unfolding onElement_def
  by (auto split: option.splits if_splits prod.splits simp: extends_refl dest: assms(1))

lemma subActions_extend:
  assumes "f \<in> set (subActions eng change)" and "f (tg, d) = (err, tg', d')"
  shows "extends d d'"
proof -
  have 1: "stepDelete eng change (tg, d) = (err, tg', d') \<Longrightarrow> extends d d'"
    by (auto simp: stepDelete_def extends_refl split: if_splits prod.splits option.splits
        dest: doDelete_extends)
  have 2: "stepUndo eng change (tg, d) = (err, tg', d') \<Longrightarrow> extends d d'"
    by (auto simp: stepUndo_def extends_refl split: if_splits prod.splits dest: doUndo_extends)
  have 3: "stepRedo eng change (tg, d) = (err, tg', d') \<Longrightarrow> extends d d'"
    by (auto simp: stepRedo_def extends_refl split: if_splits prod.splits dest: doRedo_extends)
  have st: "\<And>nm tg d d'. steady nm tg d d' \<Longrightarrow> extends d d'" by (simp add: steady_def)
  from assms 1 2 3 show ?thesis
    unfolding subActions_def
    by (auto elim!: onElement_extends[rotated]
        dest: st[OF doInsertChildren_steady] st[OF doDeleteChildren_steady]
          st[OF doRemoveAttributes_steady] st[OF doSetAttributes_steady]
          doInsertText_extends doFormatText_extends doDeleteText_extends)
qed

lemma runSteps_extends:
  assumes "\<forall>f\<in>set fs. \<forall>tg d err tg' d'. f (tg, d) = (err, tg', d') \<longrightarrow> extends d d'"
      and "runSteps fs (tg, d) = (err, tg', d')"
  shows "extends d d'"
  using assms
proof (induction fs arbitrary: tg d)
  case Nil
  then show ?case by (simp add: extends_refl)
next
  case (Cons f fs)
  obtain e1 tg1 d1 where 1: "f (tg, d) = (e1, tg1, d1)" by (cases "f (tg, d)") auto
  have x: "extends d d1" using Cons.prems(1) 1 by simp
  have rest: "\<forall>f\<in>set fs. \<forall>tg d err tg' d'. f (tg, d) = (err, tg', d') \<longrightarrow> extends d d'"
    using Cons.prems(1) by simp
  show ?case
  proof (cases e1)
    case None
    with 1 Cons.prems(2) have "runSteps fs (tg1, d1) = (err, tg', d')" by simp
    from Cons.IH[OF rest this] x show ?thesis by (rule extends_trans[rotated])
  next
    case (Some e)
    with 1 Cons.prems(2) x show ?thesis by simp
  qed
qed

lemma runSteps_append:
  "runSteps (fs @ gs) s =
     (case runSteps fs s of
        (Some e, s') \<Rightarrow> (Some e, s')
      | (None, s') \<Rightarrow> runSteps gs s')"
  by (induction fs arbitrary: s) (auto split: prod.splits option.splits)

lemma runSteps_named:
  assumes "\<forall>f\<in>set fs. \<forall>tg d tg' d'. targetNamed nm tg d \<longrightarrow> f (tg, d) = (None, tg', d')
             \<longrightarrow> targetNamed nm tg' d'"
      and "targetNamed nm tg d"
      and "runSteps fs (tg, d) = (None, tg', d')"
  shows "targetNamed nm tg' d'"
  using assms
proof (induction fs arbitrary: tg d)
  case Nil
  then show ?case by simp
next
  case (Cons f fs)
  obtain e1 tg1 d1 where 1: "f (tg, d) = (e1, tg1, d1)" by (cases "f (tg, d)") auto
  have e1: "e1 = None"
  proof (cases e1)
    case (Some e)
    with 1 Cons.prems(3) show ?thesis by simp
  qed simp
  have "f \<in> set (f # fs)" by simp
  with Cons.prems(1) have "\<forall>tg d tg' d'. targetNamed nm tg d \<longrightarrow> f (tg, d) = (None, tg', d')
             \<longrightarrow> targetNamed nm tg' d'" by blast
  with 1 e1 Cons.prems(2) have n1: "targetNamed nm tg1 d1" by blast
  have rest: "\<forall>f\<in>set fs. \<forall>tg d tg' d'. targetNamed nm tg d \<longrightarrow> f (tg, d) = (None, tg', d')
             \<longrightarrow> targetNamed nm tg' d'"
    using Cons.prems(1) by (meson list.set_intros(2))
  have "runSteps (f # fs) (tg, d) = runSteps fs (tg1, d1)" using 1 e1 by simp
  with Cons.prems(3) have "runSteps fs (tg1, d1) = (None, tg', d')" by simp
  from Cons.IH[OF rest n1 this] show ?case .
qed

lemma onElement_named:
  assumes "\<And>tg x d err d'. act tg x d = (err, d') \<Longrightarrow> steady nm tg d d'"
      and "onElement field e act (tg, d) = (err, tg', d')" and "targetNamed nm tg d"
  shows "targetNamed nm tg' d'"
  using assms(2,3) unfolding onElement_def
  by (auto split: option.splits if_splits prod.splits dest!: assms(1) simp: steady_def)

lemma stepDelete_named:
  assumes "stepDelete eng change (tg, d) = (None, tg', d')" and "targetNamed nm tg d"
  shows "targetNamed nm tg' d'"
proof (cases "delete change")
  case False
  with assms show ?thesis by (simp add: stepDelete_def)
next
  case True
  from view_named[OF assms(2)] have "nodeName (view d tg) = nm" by auto
  with True assms(1) have "tg' = Detached nm"
    by (auto simp: stepDelete_def split: prod.splits option.splits)
  then show ?thesis by (simp add: targetNamed_def)
qed

lemma subActions_split: "subActions eng change = treeActions eng change @ textActions eng change"
  by (simp add: subActions_def treeActions_def textActions_def)

lemma treeActions_named:
  assumes "runSteps (treeActions eng change) (tg, d) = (None, tg', d')" and "targetNamed nm tg d"
  shows "targetNamed nm tg' d'"
proof (rule runSteps_named[OF _ assms(2) assms(1)])
  show "\<forall>f\<in>set (treeActions eng change). \<forall>tg d tg' d'. targetNamed nm tg d \<longrightarrow>
          f (tg, d) = (None, tg', d') \<longrightarrow> targetNamed nm tg' d'"
    unfolding treeActions_def
    by (auto dest: stepDelete_named
        onElement_named[OF doInsertChildren_steady, rotated]
        onElement_named[OF doDeleteChildren_steady, rotated]
        onElement_named[OF doRemoveAttributes_steady, rotated]
        onElement_named[OF doSetAttributes_steady, rotated])
qed

lemma textActions_fail:
  assumes "targetNamed nm tg d" and "nm \<noteq> ''text''"
      and "insertText change \<noteq> None \<or> formatText change \<noteq> None \<or> deleteText change \<noteq> None"
  shows "fst (runSteps (textActions eng change) (tg, d)) \<noteq> None"
proof -
  from view_named[OF assms(1)] obtain at cs where v: "view d tg = XmlElement nm at cs" by blast
  with assms(2,3) show ?thesis
    by (auto simp: textActions_def onElement_def doInsertText_def doFormatText_def
        doDeleteText_def split: option.splits)
qed

lemma findAfter_None: "(findAfter a cs i = None) = (\<forall>c\<in>set cs. \<not> hasId a c)"
  by (induction a cs i rule: findAfter.induct) auto

lemma findAfter_first:
  "j < length cs \<Longrightarrow> hasId a (cs ! j) \<Longrightarrow> \<forall>k<j. \<not> hasId a (cs ! k) \<Longrightarrow>
   findAfter a cs i = Some (i + j)"
proof (induction a cs i arbitrary: j rule: findAfter.induct)
  case (1 after i)
  then show ?case by simp
next
  case (2 after nm at cs es i)
  show ?case
  proof (cases j)
    case 0
    with 2 show ?thesis by simp
  next
    case (Suc j')
    with "2.prems" have n: "getAttribute at ''$id'' \<noteq> JStr after" by auto
    from "2.prems" Suc have "j' < length es" "hasId after (es ! j')" "\<forall>k<j'. \<not> hasId after (es ! k)"
      by auto
    from "2.IH"[OF n this] n Suc show ?thesis by simp
  qed
next
  case (3 after t es i)
  show ?case
  proof (cases j)
    case 0
    with 3 show ?thesis by simp
  next
    case (Suc j')
    from "3.prems" Suc have "j' < length es" "hasId after (es ! j')" "\<forall>k<j'. \<not> hasId after (es ! k)"
      by auto
    from "3.IH"[OF this] Suc show ?thesis by simp
  qed
qed

lemma yInsert_result:
  assumes "getNode (tree d) p = Some (XmlElement nm at cs)" and "pos \<le> length cs"
  shows "yInsert eng (Attached p) pos nodes d =
     (None, if nodes = [] then d
            else d\<lparr>tree := setNode (tree d) p (XmlElement nm at (take pos cs @ nodes @ drop pos cs)),
                   history := track eng (tree d)
                     (setNode (tree d) p (XmlElement nm at (take pos cs @ nodes @ drop pos cs)))
                     (history d),
                   notified := notified d @ [insertMessage (p = []) at pos nodes]\<rparr>)"
  using assms
  by (simp add: yInsert_def view_attached commit_attached insertMessage_def retainEntry_def
      elementDelta_def truthyNum_def)

lemma doInsertChildren_result:
  assumes "getNode (tree d) p = Some (XmlElement nm at cs)"
      and "insertPosition ic cs = Some pos" and "pos \<le> length cs"
      and "createNodes eng (ic_children ic) (generated d) = Inr (nodes, n)"
  shows "doInsertChildren eng (Attached p) ic d =
           yInsert eng (Attached p) pos nodes (d\<lparr>generated := n\<rparr>)"
  using assms
  by (auto simp: doInsertChildren_def insertPosition_def view_attached withNodes_def
      yInsertAfter_def yPush_def view_generated split: if_splits option.splits)

lemma doInsertChildren_inserts:
  assumes "getNode (tree d) p = Some (XmlElement nm at cs)"
      and "insertPosition ic cs = Some pos" and "pos \<le> length cs"
      and "createNodes eng (ic_children ic) (generated d) = Inr (nodes, n)"
  shows "fst (doInsertChildren eng (Attached p) ic d) = None"
    and "getNode (tree (snd (doInsertChildren eng (Attached p) ic d))) p =
           Some (XmlElement nm at (take pos cs @ nodes @ drop pos cs))"
    and "notified (snd (doInsertChildren eng (Attached p) ic d)) =
           notified d @ (if nodes = [] then [] else [insertMessage (p = []) at pos nodes])"
proof -
  have g: "getNode (tree (d\<lparr>generated := n\<rparr>)) p = Some (XmlElement nm at cs)"
    using assms(1) by simp
  note r = doInsertChildren_result[OF assms] yInsert_result[OF g assms(3), of eng nodes]
  show "fst (doInsertChildren eng (Attached p) ic d) = None" by (simp add: r)
  show "getNode (tree (snd (doInsertChildren eng (Attached p) ic d))) p =
           Some (XmlElement nm at (take pos cs @ nodes @ drop pos cs))"
    using assms(1) getNode_setNode[OF assms(1)] by (simp add: r)
  show "notified (snd (doInsertChildren eng (Attached p) ic d)) =
           notified d @ (if nodes = [] then [] else [insertMessage (p = []) at pos nodes])"
    by (simp add: r)
qed

section \<open>C2: what the observer reports of an insertion\<close>

text \<open>
  C2. Take a command with \<^verbatim>\<open>insertChildren\<close> and without \<^verbatim>\<open>delete\<close>, whose node is the
  element at \<open>p\<close> with the children \<open>cs\<close>; let \<open>pos\<close> be the position the command
  names and \<open>nodes\<close> the nodes built from its items, at least one. Then
  \<^verbatim>\<open>doInsertChildren\<close> succeeds, the children of the node are \<open>cs\<close> with \<open>nodes\<close>
  inserted at \<open>pos\<close>, and the observer has handed the sink exactly one more message:
  on that node, with a retain entry of \<open>pos\<close> (none when \<open>pos\<close> is 0) followed by the
  entry whose \<^verbatim>\<open>insert\<close> is the serialization of \<open>nodes\<close>, node by node. The messages
  after \<^verbatim>\<open>applyChanges\<close> on the command start with the earlier ones and this message.
\<close>

theorem insertChildren_notification:
  assumes "\<not> delete change" and "insertChildren change = Some ic"
      and "(if truthyStr (nodeID change) then findNode (nodeID change) (tree d) else Some [])
             = Some p"
      and "getNode (tree d) p = Some (XmlElement nm at cs)"
      and "insertPosition ic cs = Some pos" and "pos \<le> length cs"
      and "createNodes eng (ic_children ic) (generated d) = Inr (nodes, n)" and "nodes \<noteq> []"
  shows "\<exists>d1. doInsertChildren eng (Attached p) ic d = (None, d1)
           \<and> getNode (tree d1) p = Some (XmlElement nm at (take pos cs @ nodes @ drop pos cs))
           \<and> notified d1 = notified d @ [insertMessage (p = []) at pos nodes]
           \<and> (\<exists>ms. notified (snd (applyChanges eng [change] d)) =
                      notified d @ [insertMessage (p = []) at pos nodes] @ ms)"
proof -
  obtain e1 d1 where 1: "doInsertChildren eng (Attached p) ic d = (e1, d1)"
    by (cases "doInsertChildren eng (Attached p) ic d")
  note ins = doInsertChildren_inserts[OF assms(4-7)]
  from ins(1) 1 have e1: "e1 = None" by simp
  from ins(2) 1 have t1: "getNode (tree d1) p =
      Some (XmlElement nm at (take pos cs @ nodes @ drop pos cs))" by simp
  from ins(3) 1 assms(8) have n1: "notified d1 = notified d @ [insertMessage (p = []) at pos nodes]"
    by simp
  define rest where "rest = drop 2 (subActions eng change)"
  have split: "subActions eng change =
      [stepDelete eng change,
       onElement (insertChildren change) CannotInsertChildrenIntoText (doInsertChildren eng)] @ rest"
    by (simp add: rest_def subActions_def)
  have sub: "set rest \<subseteq> set (subActions eng change)"
    unfolding rest_def by (rule set_drop_subset)
  obtain e2 tg2 d2 where 2: "runSteps rest (Attached p, d1) = (e2, tg2, d2)"
    by (cases "runSteps rest (Attached p, d1)") auto
  have "\<forall>f\<in>set rest. \<forall>tg d err tg' d'. f (tg, d) = (err, tg', d') \<longrightarrow> extends d d'"
    using sub subActions_extend by blast
  from runSteps_extends[OF this 2] obtain ms where ms: "notified d2 = notified d1 @ ms"
    by (auto simp: extends_def)
  have el: "isElement (view d (Attached p))" using assms(4) by (simp add: view_def)
  have "runSteps (subActions eng change) (Attached p, d) = (e2, tg2, d2)"
    unfolding split using assms(1,2) 1 e1 2 el
    by (simp add: stepDelete_def onElement_def)
  with assms(3) have "applyChange eng change d = (e2, d2)" by (simp add: applyChange_def)
  then have "snd (applyChanges eng [change] d) = d2" by (cases e2) simp_all
  with ms n1 have "notified (snd (applyChanges eng [change] d)) =
      notified d @ [insertMessage (p = []) at pos nodes] @ ms" by simp
  with 1 e1 t1 n1 show ?thesis by blast
qed

theorem insertChildren_notification_witness:
  "\<not> delete (emptyChange\<lparr>insertChildren :=
        Some \<lparr> ic_after = Some ''a'', ic_index = None, ic_children = [divSpec] \<rparr>\<rparr>)
   \<and> getNode (tree rootAB) [] = Some (XmlElement ''xml'' [] [nodeA, nodeB])
   \<and> insertPosition \<lparr> ic_after = Some ''a'', ic_index = None, ic_children = [divSpec] \<rparr>
        [nodeA, nodeB] = Some 1
   \<and> createNodes sampleEngine [divSpec] (generated rootAB) = Inr ([divNode], 0)
   \<and> (\<exists>d1. doInsertChildren sampleEngine (Attached [])
               \<lparr> ic_after = Some ''a'', ic_index = None, ic_children = [divSpec] \<rparr> rootAB
             = (None, d1)
          \<and> getNode (tree d1) [] = Some (XmlElement ''xml'' [] [nodeA, divNode, nodeB])
          \<and> notified d1 = [insertMessage True [] 1 [divNode]]
          \<and> (\<exists>ms. notified (snd (applyChanges sampleEngine
                      [emptyChange\<lparr>insertChildren :=
                         Some \<lparr> ic_after = Some ''a'', ic_index = None,
                                ic_children = [divSpec] \<rparr>\<rparr>] rootAB))
                    = [insertMessage True [] 1 [divNode]] @ ms))"
proof -
  let ?ic = "\<lparr> ic_after = Some ''a'', ic_index = None, ic_children = [divSpec] \<rparr>"
  let ?c = "emptyChange\<lparr>insertChildren := Some ?ic\<rparr>"
  have h1: "\<not> delete ?c" by (simp add: emptyChange_def)
  have h2: "insertChildren ?c = Some ?ic" by simp
  have h3: "(if truthyStr (nodeID ?c) then findNode (nodeID ?c) (tree rootAB) else Some [])
              = Some []"
    by (simp add: emptyChange_def truthyStr_def)
  have h4: "getNode (tree rootAB) [] = Some (XmlElement ''xml'' [] [nodeA, nodeB])"
    by (simp add: rootAB_def newDoc_def)
  have h5: "insertPosition ?ic [nodeA, nodeB] = Some 1"
    by (simp add: insertPosition_def truthyStr_def nodeA_def getAttribute_def)
  have h6: "(1::nat) \<le> length [nodeA, nodeB]" by simp
  have h7: "createNodes sampleEngine (ic_children ?ic) (generated rootAB) = Inr ([divNode], 0)"
    by (simp add: eval_defs)
  have h8: "[divNode] \<noteq> []" by simp
  from insertChildren_notification [OF h1 h2 h3 h4 h5 h6 h7 h8] h1 h4 h5 h7
  show ?thesis by (simp add: rootAB_def newDoc_def)
qed

section \<open>C3: the batch loop\<close>

lemma applyChanges_append:
  "applyChanges eng (xs @ ys) d =
     (case applyChanges eng xs d of
        (Some e, d') \<Rightarrow> (Some e, d')
      | (None, d') \<Rightarrow> applyChanges eng ys d')"
  by (induction xs arbitrary: d) (auto split: prod.splits option.splits)

text \<open>
  C3. \<^verbatim>\<open>applyChanges\<close> runs the commands in the order of the batch and stops at the
  first one that fails. When the commands \<open>before\<close> have all been applied, leaving the
  document \<open>d1\<close>, the rest of the batch runs on \<open>d1\<close>; and when the next command
  fails on \<open>d1\<close> leaving \<open>d2\<close>, the call fails with that error and leaves \<open>d2\<close>,
  whatever commands come later in the batch. Nothing of what the earlier commands did is
  undone, and no later command runs.
\<close>

theorem applyChanges_stops_at_first_failure:
  assumes "applyChanges eng before d = (None, d1)"
  shows "applyChanges eng (before @ rest) d = applyChanges eng rest d1
       \<and> (applyChange eng change d1 = (Some e, d2) \<longrightarrow>
            applyChanges eng (before @ change # later) d = (Some e, d2))"
  using assms by (simp add: applyChanges_append)

theorem applyChanges_stops_at_first_failure_witness:
  "applyChanges sampleEngine [insertDiv] (newDoc (XmlElement ''xml'' [] [])) = (None, withDiv)
   \<and> applyChange sampleEngine (emptyChange\<lparr>nodeID := Some ''missing'', delete := True\<rparr>) withDiv
       = (Some (ElementNotFound ''missing''), withDiv)
   \<and> applyChanges sampleEngine
       ([insertDiv] @ emptyChange\<lparr>nodeID := Some ''missing'', delete := True\<rparr> # [insertDiv])
       (newDoc (XmlElement ''xml'' [] []))
       = (Some (ElementNotFound ''missing''), withDiv)
   \<and> applyChanges sampleEngine ([insertDiv] @ [emptyChange]) (newDoc (XmlElement ''xml'' [] []))
       = applyChanges sampleEngine [emptyChange] withDiv"
proof -
  have h1: "applyChanges sampleEngine [insertDiv] (newDoc (XmlElement ''xml'' [] []))
              = (None, withDiv)"
    by (simp add: eval_defs)
  have h2: "applyChange sampleEngine (emptyChange\<lparr>nodeID := Some ''missing'', delete := True\<rparr>)
              withDiv = (Some (ElementNotFound ''missing''), withDiv)"
    by (simp add: eval_defs)
  from applyChanges_stops_at_first_failure [OF h1, of "[emptyChange]"
      "emptyChange\<lparr>nodeID := Some ''missing'', delete := True\<rparr>"
      "ElementNotFound ''missing''" withDiv "[insertDiv]"] h1 h2
  show ?thesis by simp
qed

section \<open>C4: deleting the root\<close>

text \<open>
  C4. A command that asks for \<^verbatim>\<open>delete\<close> and whose node is the document root (no
  \<^verbatim>\<open>nodeID\<close>, or a \<^verbatim>\<open>nodeID\<close> that \<^verbatim>\<open>findNode\<close> resolves to the root) fails with
  "Cannot delete top-level element.", and the document is as it was before the command.
\<close>

theorem delete_root_fails:
  assumes "delete change"
      and "(if truthyStr (nodeID change) then findNode (nodeID change) (tree d) else Some [])
             = Some []"
  shows "applyChange eng change d = (Some CannotDeleteTopLevel, d)"
  using assms by (simp add: applyChange_def subActions_def stepDelete_def doDelete_def)

theorem delete_root_fails_witness:
  "delete (emptyChange\<lparr>nodeID := Some ''r'', delete := True\<rparr>)
   \<and> findNode (Some ''r'') (XmlElement ''xml'' [(''$id'', JStr ''r'')] [nodeA]) = Some []
   \<and> applyChange sampleEngine (emptyChange\<lparr>nodeID := Some ''r'', delete := True\<rparr>)
       (newDoc (XmlElement ''xml'' [(''$id'', JStr ''r'')] [nodeA]))
       = (Some CannotDeleteTopLevel,
          newDoc (XmlElement ''xml'' [(''$id'', JStr ''r'')] [nodeA]))"
  using delete_root_fails [of "emptyChange\<lparr>nodeID := Some ''r'', delete := True\<rparr>"
      "newDoc (XmlElement ''xml'' [(''$id'', JStr ''r'')] [nodeA])" sampleEngine]
  by (simp add: emptyChange_def newDoc_def truthyStr_def getAttribute_def)

section \<open>C5: text sub-commands on an element that is not a text element\<close>

text \<open>
  C5. When the node of a command is an element whose name is not \<^verbatim>\<open>text\<close>, each of
  \<^verbatim>\<open>doInsertText\<close>, \<^verbatim>\<open>doFormatText\<close> and \<^verbatim>\<open>doDeleteText\<close> fails with its "Can only ...
  text in a text node." error and leaves the document as it was; and every command on
  that node that carries one of \<^verbatim>\<open>insertText\<close>, \<^verbatim>\<open>formatText\<close>, \<^verbatim>\<open>deleteText\<close> fails,
  whatever else it carries.
\<close>

theorem text_subcommands_guard:
  assumes "getNode (tree d) p = Some (XmlElement nm at cs)" and "nm \<noteq> ''text''"
  shows "doInsertText eng (Attached p) it d = (Some OnlyInsertTextInTextNode, d)
       \<and> doFormatText eng (Attached p) ft d = (Some OnlyFormatTextInTextNode, d)
       \<and> doDeleteText eng (Attached p) dt d = (Some OnlyDeleteTextInTextNode, d)
       \<and> ((if truthyStr (nodeID change) then findNode (nodeID change) (tree d) else Some [])
              = Some p
            \<and> (insertText change \<noteq> None \<or> formatText change \<noteq> None \<or> deleteText change \<noteq> None)
            \<longrightarrow> fst (applyChange eng change d) \<noteq> None)"
proof -
  have sub: "doInsertText eng (Attached p) it d = (Some OnlyInsertTextInTextNode, d)
       \<and> doFormatText eng (Attached p) ft d = (Some OnlyFormatTextInTextNode, d)
       \<and> doDeleteText eng (Attached p) dt d = (Some OnlyDeleteTextInTextNode, d)"
    using assms by (simp add: doInsertText_def doFormatText_def doDeleteText_def view_def)
  have cmd: "fst (applyChange eng change d) \<noteq> None"
    if r: "(if truthyStr (nodeID change) then findNode (nodeID change) (tree d) else Some [])
               = Some p"
      and t: "insertText change \<noteq> None \<or> formatText change \<noteq> None \<or> deleteText change \<noteq> None"
  proof -
    have n0: "targetNamed nm (Attached p) d" using assms(1) by (simp add: targetNamed_def)
    obtain e1 tg1 d1 where 1: "runSteps (treeActions eng change) (Attached p, d) = (e1, tg1, d1)"
      by (cases "runSteps (treeActions eng change) (Attached p, d)") auto
    show ?thesis
    proof (cases e1)
      case (Some e)
      with 1 r show ?thesis
        by (simp add: applyChange_def subActions_split runSteps_append)
    next
      case None
      with 1 have n1: "targetNamed nm tg1 d1" using treeActions_named n0 by blast
      from textActions_fail[OF n1 assms(2) t, of eng] 1 None r show ?thesis
        by (auto simp: applyChange_def subActions_split runSteps_append split: prod.splits)
    qed
  qed
  from sub cmd show ?thesis by blast
qed

theorem text_subcommands_guard_witness:
  "getNode (tree rootAB) [0] = Some nodeA
   \<and> ''p'' \<noteq> ''text''
   \<and> doInsertText sampleEngine (Attached [0])
        \<lparr> it_index = 0, it_text = ''Hello'', it_attributes = None \<rparr> rootAB
       = (Some OnlyInsertTextInTextNode, rootAB)
   \<and> doFormatText sampleEngine (Attached [0])
        \<lparr> ft_from = 0, ft_length = 5, ft_attributes = Some [(''bold'', JBool True)] \<rparr> rootAB
       = (Some OnlyFormatTextInTextNode, rootAB)
   \<and> doDeleteText sampleEngine (Attached [0]) \<lparr> dt_index = 0, dt_length = 5 \<rparr> rootAB
       = (Some OnlyDeleteTextInTextNode, rootAB)
   \<and> findNode (Some ''a'') (tree rootAB) = Some [0]
   \<and> fst (applyChange sampleEngine
            (emptyChange\<lparr>nodeID := Some ''a'', setAttributes := Some [(''k'', JStr ''v'')],
               deleteText := Some \<lparr> dt_index = 0, dt_length = 5 \<rparr>\<rparr>) rootAB) \<noteq> None"
proof -
  have h1: "getNode (tree rootAB) [0] = Some (XmlElement ''p'' [(''$id'', JStr ''a'')] [])"
    by (simp add: rootAB_def newDoc_def nodeA_def)
  have h2: "''p'' \<noteq> ''text''" by simp
  have h3: "findNode (Some ''a'') (tree rootAB) = Some [0]"
    by (simp add: rootAB_def newDoc_def nodeA_def truthyStr_def getAttribute_def)
  from text_subcommands_guard [OF h1 h2, of sampleEngine
      "\<lparr> it_index = 0, it_text = ''Hello'', it_attributes = None \<rparr>"
      "\<lparr> ft_from = 0, ft_length = 5, ft_attributes = Some [(''bold'', JBool True)] \<rparr>"
      "\<lparr> dt_index = 0, dt_length = 5 \<rparr>"
      "emptyChange\<lparr>nodeID := Some ''a'', setAttributes := Some [(''k'', JStr ''v'')],
               deleteText := Some \<lparr> dt_index = 0, dt_length = 5 \<rparr>\<rparr>"] h1 h2 h3
  show ?thesis by (simp add: nodeA_def emptyChange_def truthyStr_def)
qed

section \<open>C6: where insertChildren inserts\<close>

text \<open>
  C6, as the code has it. The node of the command is the element at \<open>p\<close> with the
  children \<open>cs\<close>. When \<^verbatim>\<open>after\<close> is given and is not the empty string: if no child is an
  element with that \<^verbatim>\<open>$id\<close>, the command fails with "Unable to find child element to
  insert after" and the document is as it was, whether or not \<^verbatim>\<open>index\<close> is given; if
  \<open>j\<close> is the first child that is, the new nodes are inserted right behind it, whether
  or not \<^verbatim>\<open>index\<close> is given. When \<^verbatim>\<open>after\<close> is absent or the empty string: with an
  \<^verbatim>\<open>index\<close> within the children the new nodes are inserted at that position, and with
  no \<^verbatim>\<open>index\<close> they are appended.
\<close>

theorem doInsertChildren_position:
  assumes "getNode (tree d) p = Some (XmlElement nm at cs)"
  shows "(ic_after ic = Some a \<and> a \<noteq> [] \<and> (\<forall>c\<in>set cs. \<not> hasId a c) \<longrightarrow>
            doInsertChildren eng (Attached p) ic d = (Some (UnableToFindChild a), d))
       \<and> (createNodes eng (ic_children ic) (generated d) = Inr (nodes, n)
            \<and> ic_after ic = Some a \<and> a \<noteq> [] \<and> j < length cs \<and> hasId a (cs ! j)
            \<and> (\<forall>k<j. \<not> hasId a (cs ! k)) \<longrightarrow>
               fst (doInsertChildren eng (Attached p) ic d) = None
               \<and> getNode (tree (snd (doInsertChildren eng (Attached p) ic d))) p =
                   Some (XmlElement nm at (take (Suc j) cs @ nodes @ drop (Suc j) cs)))
       \<and> (createNodes eng (ic_children ic) (generated d) = Inr (nodes, n)
            \<and> \<not> truthyStr (ic_after ic) \<and> ic_index ic = Some i \<and> i \<le> length cs \<longrightarrow>
               fst (doInsertChildren eng (Attached p) ic d) = None
               \<and> getNode (tree (snd (doInsertChildren eng (Attached p) ic d))) p =
                   Some (XmlElement nm at (take i cs @ nodes @ drop i cs)))
       \<and> (createNodes eng (ic_children ic) (generated d) = Inr (nodes, n)
            \<and> \<not> truthyStr (ic_after ic) \<and> ic_index ic = None \<longrightarrow>
               fst (doInsertChildren eng (Attached p) ic d) = None
               \<and> getNode (tree (snd (doInsertChildren eng (Attached p) ic d))) p =
                   Some (XmlElement nm at (cs @ nodes)))"
proof (intro conjI impI)
  assume "ic_after ic = Some a \<and> a \<noteq> [] \<and> (\<forall>c\<in>set cs. \<not> hasId a c)"
  then have "ic_after ic = Some a" "a \<noteq> []" "findAfter a cs 0 = None"
    by (simp_all add: findAfter_None)
  then show "doInsertChildren eng (Attached p) ic d = (Some (UnableToFindChild a), d)"
    using assms by (simp add: doInsertChildren_def truthyStr_def view_attached)
next
  assume h: "createNodes eng (ic_children ic) (generated d) = Inr (nodes, n)
            \<and> ic_after ic = Some a \<and> a \<noteq> [] \<and> j < length cs \<and> hasId a (cs ! j)
            \<and> (\<forall>k<j. \<not> hasId a (cs ! k))"
  then have c: "createNodes eng (ic_children ic) (generated d) = Inr (nodes, n)" by simp
  from h have "findAfter a cs 0 = Some (0 + j)" by (intro findAfter_first) auto
  with h have pos: "insertPosition ic cs = Some (Suc j)"
    by (simp add: insertPosition_def truthyStr_def)
  from h have le: "Suc j \<le> length cs" by simp
  from doInsertChildren_inserts(1,2)[OF assms pos le c]
  show "fst (doInsertChildren eng (Attached p) ic d) = None"
    and "getNode (tree (snd (doInsertChildren eng (Attached p) ic d))) p =
                   Some (XmlElement nm at (take (Suc j) cs @ nodes @ drop (Suc j) cs))"
    by simp_all
next
  assume h: "createNodes eng (ic_children ic) (generated d) = Inr (nodes, n)
            \<and> \<not> truthyStr (ic_after ic) \<and> ic_index ic = Some i \<and> i \<le> length cs"
  then have c: "createNodes eng (ic_children ic) (generated d) = Inr (nodes, n)" by simp
  from h have pos: "insertPosition ic cs = Some i" by (simp add: insertPosition_def)
  from h have le: "i \<le> length cs" by simp
  from doInsertChildren_inserts(1,2)[OF assms pos le c]
  show "fst (doInsertChildren eng (Attached p) ic d) = None"
    and "getNode (tree (snd (doInsertChildren eng (Attached p) ic d))) p =
                   Some (XmlElement nm at (take i cs @ nodes @ drop i cs))"
    by simp_all
next
  assume h: "createNodes eng (ic_children ic) (generated d) = Inr (nodes, n)
            \<and> \<not> truthyStr (ic_after ic) \<and> ic_index ic = None"
  then have c: "createNodes eng (ic_children ic) (generated d) = Inr (nodes, n)" by simp
  from h have pos: "insertPosition ic cs = Some (length cs)" by (simp add: insertPosition_def)
  from doInsertChildren_inserts(1,2)[OF assms pos _ c]
  show "fst (doInsertChildren eng (Attached p) ic d) = None"
    and "getNode (tree (snd (doInsertChildren eng (Attached p) ic d))) p =
                   Some (XmlElement nm at (cs @ nodes))"
    by simp_all
qed

theorem doInsertChildren_position_witness:
  "doInsertChildren sampleEngine (Attached [])
      \<lparr> ic_after = Some ''zz'', ic_index = Some 0, ic_children = [divSpec] \<rparr> rootAB
     = (Some (UnableToFindChild ''zz''), rootAB)
   \<and> getNode (tree (snd (doInsertChildren sampleEngine (Attached [])
        \<lparr> ic_after = Some ''a'', ic_index = Some 2, ic_children = [divSpec] \<rparr> rootAB))) []
     = Some (XmlElement ''xml'' [] [nodeA, divNode, nodeB])
   \<and> getNode (tree (snd (doInsertChildren sampleEngine (Attached [])
        \<lparr> ic_after = None, ic_index = Some 0, ic_children = [divSpec] \<rparr> rootAB))) []
     = Some (XmlElement ''xml'' [] [divNode, nodeA, nodeB])
   \<and> getNode (tree (snd (doInsertChildren sampleEngine (Attached [])
        \<lparr> ic_after = None, ic_index = None, ic_children = [divSpec] \<rparr> rootAB))) []
     = Some (XmlElement ''xml'' [] [nodeA, nodeB, divNode])"
proof -
  have g: "getNode (tree rootAB) [] = Some (XmlElement ''xml'' [] [nodeA, nodeB])"
    by (simp add: rootAB_def newDoc_def)
  have c: "createNodes sampleEngine [divSpec] (generated rootAB) = Inr ([divNode], 0)"
    by (simp add: eval_defs)
  have ids: "\<not> hasId ''zz'' nodeA" "\<not> hasId ''zz'' nodeB" "hasId ''a'' nodeA"
    by (simp_all add: nodeA_def nodeB_def getAttribute_def)
  note t = doInsertChildren_position [OF g, where eng = sampleEngine and nodes = "[divNode]"
      and n = 0]
  have 1: "doInsertChildren sampleEngine (Attached [])
      \<lparr> ic_after = Some ''zz'', ic_index = Some 0, ic_children = [divSpec] \<rparr> rootAB
     = (Some (UnableToFindChild ''zz''), rootAB)"
    using t [where ic = "\<lparr> ic_after = Some ''zz'', ic_index = Some 0, ic_children = [divSpec] \<rparr>"
        and a = "''zz''"] ids
    by simp
  have 2: "getNode (tree (snd (doInsertChildren sampleEngine (Attached [])
        \<lparr> ic_after = Some ''a'', ic_index = Some 2, ic_children = [divSpec] \<rparr> rootAB))) []
     = Some (XmlElement ''xml'' [] [nodeA, divNode, nodeB])"
    using t [where ic = "\<lparr> ic_after = Some ''a'', ic_index = Some 2, ic_children = [divSpec] \<rparr>"
        and a = "''a''" and j = 0] ids c
    by simp
  have 3: "getNode (tree (snd (doInsertChildren sampleEngine (Attached [])
        \<lparr> ic_after = None, ic_index = Some 0, ic_children = [divSpec] \<rparr> rootAB))) []
     = Some (XmlElement ''xml'' [] [divNode, nodeA, nodeB])"
    using t [where ic = "\<lparr> ic_after = None, ic_index = Some 0, ic_children = [divSpec] \<rparr>"
        and i = 0] c
    by (simp add: truthyStr_def)
  have 4: "getNode (tree (snd (doInsertChildren sampleEngine (Attached [])
        \<lparr> ic_after = None, ic_index = None, ic_children = [divSpec] \<rparr> rootAB))) []
     = Some (XmlElement ''xml'' [] [nodeA, nodeB, divNode])"
    using t [where ic = "\<lparr> ic_after = None, ic_index = None, ic_children = [divSpec] \<rparr>"] c
    by (simp add: truthyStr_def)
  from 1 2 3 4 show ?thesis by blast
qed

text \<open>
  The claim as the specification states it fails for an \<^verbatim>\<open>after\<close> that is given as the
  empty string: no child has that \<^verbatim>\<open>$id\<close>, yet the command does not fail, and the new
  node is appended.
\<close>

theorem doInsertChildren_empty_after_counterexample:
  "\<not> hasId [] nodeA \<and> \<not> hasId [] nodeB
   \<and> fst (applyChange sampleEngine
            (emptyChange\<lparr>insertChildren :=
               Some \<lparr> ic_after = Some [], ic_index = None, ic_children = [divSpec] \<rparr>\<rparr>)
            rootAB) = None
   \<and> tree (snd (applyChange sampleEngine
            (emptyChange\<lparr>insertChildren :=
               Some \<lparr> ic_after = Some [], ic_index = None, ic_children = [divSpec] \<rparr>\<rparr>)
            rootAB)) = XmlElement ''xml'' [] [nodeA, nodeB, divNode]"
  by (simp add: eval_defs)

section \<open>C7: where deleteChildren deletes\<close>

text \<open>
  C7. The claim has \<^verbatim>\<open>deleteChildren\<close> with \<^verbatim>\<open>after\<close> remove the children behind the
  child that \<^verbatim>\<open>after\<close> names, as the comment of \<^verbatim>\<open>doDeleteChildren\<close> does ("immediately
  after a specified child"). The code passes the position of that child itself to
  \<^verbatim>\<open>element.delete\<close>: on the root with the children \<^verbatim>\<open>a\<close>, \<^verbatim>\<open>b\<close>, the command
  \<^verbatim>\<open>{deleteChildren: {after: "a", length: 1}}\<close> succeeds and removes \<^verbatim>\<open>a\<close>, not \<^verbatim>\<open>b\<close>.
\<close>

theorem doDeleteChildren_after_removes_anchor:
  "fst (applyChanges sampleEngine
          [emptyChange\<lparr>deleteChildren :=
             Some \<lparr> dc_after = Some ''a'', dc_index = None, dc_length = 1 \<rparr>\<rparr>] rootAB) = None
   \<and> tree (snd (applyChanges sampleEngine
          [emptyChange\<lparr>deleteChildren :=
             Some \<lparr> dc_after = Some ''a'', dc_index = None, dc_length = 1 \<rparr>\<rparr>] rootAB))
       = XmlElement ''xml'' [] [nodeB]"
  by (simp add: eval_defs)

section \<open>C8: attribute changes in a notification\<close>

lemma attributeChanges_eq:
  "attributeChanges t keys m =
     \<lparr> attr_set = attr_set m @
         map (\<lambda>(k, a). \<lparr> set_name = k, set_value = getAttribute t k \<rparr>)
           (filter (\<lambda>(k, a). a = KAdd \<or> a = KUpdate) keys),
       attr_delete = attr_delete m @ map fst (filter (\<lambda>(k, a). a = KDelete) keys) \<rparr>"
  by (induction t keys m rule: attributeChanges.induct) auto

text \<open>
  C8. In the message for an event on an element, the \<^verbatim>\<open>set\<close> list has one entry for
  each key whose change is an add or an update, in the order of the keys, and its value
  is what \<^verbatim>\<open>getAttribute\<close> returns on the target when the observer runs; the \<^verbatim>\<open>delete\<close>
  list has the deleted keys. The observer runs after the change: for
  \<^verbatim>\<open>setAttribute(k, v)\<close> on an element of the tree the one message added has the
  \<^verbatim>\<open>set\<close> entry of \<open>k\<close> with the new value \<open>v\<close>, and for \<^verbatim>\<open>removeAttribute(k)\<close> of a
  present attribute it has \<open>k\<close> in its \<^verbatim>\<open>delete\<close> list.
\<close>

theorem observer_attribute_changes:
  "(notification (ElementEvent isRoot t delta keys) = Inr m \<longrightarrow>
      attr_set (msg_attributes m) =
        map (\<lambda>(k, a). \<lparr> set_name = k, set_value = getAttribute t k \<rparr>)
          (filter (\<lambda>(k, a). a = KAdd \<or> a = KUpdate) keys)
      \<and> attr_delete (msg_attributes m) = map fst (filter (\<lambda>(k, a). a = KDelete) keys))
   \<and> (getNode (tree d) p = Some (XmlElement nm at cs) \<longrightarrow>
        (\<exists>mt. notified (snd (ySetAttribute eng (Attached p) k v d)) =
           notified d @ [\<lparr> msg_root = (p = []), msg_target = mt, msg_elements = [],
                            msg_attributes = \<lparr> attr_set = [\<lparr> set_name = k, set_value = v \<rparr>],
                                               attr_delete = [] \<rparr>,
                            msg_text = [] \<rparr>]))
   \<and> (getNode (tree d) p = Some (XmlElement nm at cs) \<and> hasAttribute at k \<longrightarrow>
        (\<exists>mt. notified (snd (yRemoveAttribute eng (Attached p) k d)) =
           notified d @ [\<lparr> msg_root = (p = []), msg_target = mt, msg_elements = [],
                            msg_attributes = \<lparr> attr_set = [], attr_delete = [k] \<rparr>,
                            msg_text = [] \<rparr>]))"
  by (auto simp: attributeChanges_eq ySetAttribute_def yRemoveAttribute_def view_attached
      commit_attached getAttribute_setAttribute)

theorem observer_attribute_changes_witness:
  "notification (ElementEvent False [(''$id'', JStr ''a''), (''k'', JStr ''new'')] []
       [(''k'', KUpdate), (''j'', KAdd), (''old'', KDelete)])
     = Inr \<lparr> msg_root = False, msg_target = JStr ''a'', msg_elements = [],
             msg_attributes =
               \<lparr> attr_set = [\<lparr> set_name = ''k'', set_value = JStr ''new'' \<rparr>,
                               \<lparr> set_name = ''j'', set_value = JUndefined \<rparr>],
                 attr_delete = [''old''] \<rparr>,
             msg_text = [] \<rparr>
   \<and> getNode (tree rootAB) [0] = Some nodeA
   \<and> hasAttribute [(''$id'', JStr ''a'')] ''$id''
   \<and> (\<exists>mt. notified (snd (ySetAttribute sampleEngine (Attached [0]) ''$id'' (JStr ''z'') rootAB))
         = notified rootAB @
             [\<lparr> msg_root = False, msg_target = mt, msg_elements = [],
                 msg_attributes = \<lparr> attr_set = [\<lparr> set_name = ''$id'', set_value = JStr ''z'' \<rparr>],
                                    attr_delete = [] \<rparr>,
                 msg_text = [] \<rparr>])
   \<and> (\<exists>mt. notified (snd (yRemoveAttribute sampleEngine (Attached [0]) ''$id'' rootAB))
         = notified rootAB @
             [\<lparr> msg_root = False, msg_target = mt, msg_elements = [],
                 msg_attributes = \<lparr> attr_set = [], attr_delete = [''$id''] \<rparr>,
                 msg_text = [] \<rparr>])"
proof -
  let ?m = "\<lparr> msg_root = False, msg_target = JStr ''a'', msg_elements = [],
             msg_attributes =
               \<lparr> attr_set = [\<lparr> set_name = ''k'', set_value = JStr ''new'' \<rparr>,
                               \<lparr> set_name = ''j'', set_value = JUndefined \<rparr>],
                 attr_delete = [''old''] \<rparr>,
             msg_text = [] \<rparr>"
  have h1: "notification (ElementEvent False [(''$id'', JStr ''a''), (''k'', JStr ''new'')] []
       [(''k'', KUpdate), (''j'', KAdd), (''old'', KDelete)]) = Inr ?m"
    by (simp add: getAttribute_def)
  have h2: "getNode (tree rootAB) [0] = Some (XmlElement ''p'' [(''$id'', JStr ''a'')] [])"
    by (simp add: rootAB_def newDoc_def nodeA_def)
  have h3: "hasAttribute [(''$id'', JStr ''a'')] ''$id''" by (simp add: hasAttribute_def)
  from observer_attribute_changes [where isRoot = False
      and t = "[(''$id'', JStr ''a''), (''k'', JStr ''new'')]" and delta = "[]"
      and keys = "[(''k'', KUpdate), (''j'', KAdd), (''old'', KDelete)]" and m = ?m
      and d = rootAB and p = "[0]" and nm = "''p''" and at = "[(''$id'', JStr ''a'')]"
      and cs = "[]" and eng = sampleEngine and k = "''$id''" and v = "JStr ''z''"] h1 h2 h3
  show ?thesis by (simp add: nodeA_def)
qed

section \<open>C9: the identifier of a built element\<close>

lemma createNodes_ids:
  "createNodes eng specs n = Inr (nodes, n') \<Longrightarrow> list_all everyElementHasId nodes"
  "createNode eng spec n = Inr (node, n') \<Longrightarrow> everyElementHasId node"
proof (induction eng specs n and eng spec n arbitrary: nodes n' and node n'
       rule: createNodes_createNode.induct)
  case (1 eng n)
  then show ?case by simp
next
  case (2 eng child rest n)
  then show ?case by (auto split: sum.splits prod.splits)
next
  case (3 eng d n)
  then show ?case by auto
next
  case (4 eng nm tg at chs n)
  obtain ident n1 where id: "(case explicitId at of
                           Some v \<Rightarrow> (v, n)
                         | None \<Rightarrow> (JStr (uuid eng n), Suc n)) = (ident, n1)"
    by (cases "explicitId at") auto
  from builtAttributes[where at=at and ident=ident]
  have has: "hasAttribute (case at of None \<Rightarrow> setAttribute ''$id'' ident []
           | Some kvs \<Rightarrow> copyAttributes kvs (setAttribute ''$id'' ident [])) ''$id''"
    by (simp add: hasAttribute_def)
  show ?case
  proof (cases chs)
    case None
    with "4.prems" id has show ?thesis by (auto simp: newXmlElement_def Let_def)
  next
    case (Some specs)
    with "4.prems" id obtain cs where
      c: "createNodes eng specs n1 = Inr (cs, n')"
      and node: "node = XmlElement (nodeName (newXmlElement eng nm))
           (case at of None \<Rightarrow> setAttribute ''$id'' ident []
             | Some kvs \<Rightarrow> copyAttributes kvs (setAttribute ''$id'' ident [])) cs"
      by (auto simp: newXmlElement_def Let_def split: sum.splits)
    from "4.IH"[OF id[symmetric] refl refl refl Some c] have "list_all everyElementHasId cs" .
    with node has show ?thesis by simp
  qed
next
  case (5 eng n)
  then show ?case by simp
qed

text \<open>
  C9, as the code has it. Every element \<^verbatim>\<open>createNodes\<close> builds carries a \<^verbatim>\<open>$id\<close>
  attribute, at every depth. For an element item its value is: the \<^verbatim>\<open>$id\<close> among the
  item's own attributes when there is one; else the item's \<^verbatim>\<open>id\<close> attribute when that
  is present and neither \<^verbatim>\<open>undefined\<close> nor \<^verbatim>\<open>null\<close>, taken as it is, the empty string
  included; else the next string of the generator.
\<close>

theorem createNode_identifier:
  assumes "createNode eng (SpecElement nm tg at chs) n = Inr (el, n')"
  shows "everyElementHasId el
       \<and> getAttribute (attributes el) ''$id'' =
           (if (case at of None \<Rightarrow> False | Some kvs \<Rightarrow> hasAttribute kvs ''$id'')
            then getAttribute (the at) ''$id''
            else (case explicitId at of Some v \<Rightarrow> v | None \<Rightarrow> JStr (uuid eng n)))"
proof -
  obtain ident n1 where id: "(case explicitId at of
                           Some v \<Rightarrow> (v, n)
                         | None \<Rightarrow> (JStr (uuid eng n), Suc n)) = (ident, n1)"
    by (cases "explicitId at") auto
  then have ident: "ident = (case explicitId at of Some v \<Rightarrow> v | None \<Rightarrow> JStr (uuid eng n))"
    by (cases "explicitId at") auto
  from assms id have "attributes el = (case at of None \<Rightarrow> setAttribute ''$id'' ident []
           | Some kvs \<Rightarrow> copyAttributes kvs (setAttribute ''$id'' ident []))"
    by (cases chs) (auto simp: newXmlElement_def Let_def split: sum.splits)
  with builtAttributes[where at=at and ident=ident] ident
  have "getAttribute (attributes el) ''$id'' =
           (if (case at of None \<Rightarrow> False | Some kvs \<Rightarrow> hasAttribute kvs ''$id'')
            then getAttribute (the at) ''$id''
            else (case explicitId at of Some v \<Rightarrow> v | None \<Rightarrow> JStr (uuid eng n)))"
    by (simp add: getAttribute_def)
  with createNodes_ids(2)[OF assms] show ?thesis by simp
qed

theorem createNode_identifier_witness:
  "createNode sampleEngine divSpec 0 = Inr (divNode, 0)
   \<and> everyElementHasId divNode
   \<and> getAttribute (attributes divNode) ''$id'' = JStr ''c1''
   \<and> createNode sampleEngine (SpecElement (Some ''p'') None None None) 0
       = Inr (XmlElement ''p'' [(''$id'', JStr ''uuid-'')] [], 1)
   \<and> getAttribute (attributes (XmlElement ''p'' [(''$id'', JStr ''uuid-'')] [])) ''$id''
       = JStr (uuid sampleEngine 0)"
proof -
  have h1: "createNode sampleEngine (SpecElement (Some ''div'') None
              (Some [(''id'', JStr ''c1'')]) None) 0 = Inr (divNode, 0)"
    by (simp add: eval_defs)
  have h2: "createNode sampleEngine (SpecElement (Some ''p'') None None None) 0
       = Inr (XmlElement ''p'' [(''$id'', JStr ''uuid-'')] [], 1)"
    by (simp add: eval_defs)
  from createNode_identifier [OF h1] createNode_identifier [OF h2] h1 h2
  show ?thesis by (simp add: divSpec_def explicitId_def getAttribute_def hasAttribute_def)
qed

text \<open>
  The claim as the specification states it fails for an \<^verbatim>\<open>id\<close> that is given as the empty
  string: it is used as the \<^verbatim>\<open>$id\<close>, which is then empty, and no identifier is
  generated.
\<close>

theorem createNodes_empty_id_counterexample:
  "createNodes sampleEngine [SpecElement (Some ''p'') None (Some [(''id'', JStr [])]) None] 0
     = Inr ([XmlElement ''p'' [(''$id'', JStr []), (''id'', JStr [])] []], 0)"
  by (simp add: eval_defs)

section \<open>C10: text entries of a notification\<close>

lemma textDelta_attributes: "e \<in> set (textDelta delta) \<Longrightarrow> tx_attributes e = None"
  by (auto simp: textDelta_def split: if_splits)

text \<open>
  C10. In the message for an event on a text run, no entry of the \<^verbatim>\<open>text\<close> sequence
  has its \<^verbatim>\<open>attributes\<close> field set, whatever attributes the entries of the event's delta
  carry: an entry is built from \<^verbatim>\<open>retain\<close> and \<^verbatim>\<open>insert\<close>, or \<^verbatim>\<open>retain\<close> and
  \<^verbatim>\<open>delete\<close>, or \<^verbatim>\<open>retain\<close> alone.
\<close>

theorem observer_text_entries_without_attributes:
  assumes "notification (TextEvent parent delta) = Inr m"
  shows "\<forall>e\<in>set (msg_text m). tx_attributes e = None"
  using assms by (auto dest: textDelta_attributes)

theorem observer_text_entries_without_attributes_witness:
  "notification (TextEvent (Some [(''$id'', JStr ''t1'')])
       [\<lparr> td_insert = None, td_retain = Some 6, td_delete = None, td_attributes = None \<rparr>,
        \<lparr> td_insert = None, td_retain = Some 5, td_delete = None,
          td_attributes = Some [(''bold'', JBool True)] \<rparr>,
        \<lparr> td_insert = Some (TStr ''!''), td_retain = None, td_delete = None,
          td_attributes = Some [(''bold'', JBool True)] \<rparr>])
     = Inr \<lparr> msg_root = False, msg_target = JStr ''t1'', msg_elements = [],
             msg_attributes = \<lparr> attr_set = [], attr_delete = [] \<rparr>,
             msg_text =
               [\<lparr> tx_retain = Some 6, tx_insert = None, tx_delete = None,
                  tx_attributes = None \<rparr>,
                \<lparr> tx_retain = Some 5, tx_insert = None, tx_delete = None,
                  tx_attributes = None \<rparr>,
                \<lparr> tx_retain = None, tx_insert = Some (TStr ''!''), tx_delete = None,
                  tx_attributes = None \<rparr>] \<rparr>
   \<and> map tx_attributes
        [\<lparr> tx_retain = Some 6, tx_insert = None, tx_delete = None, tx_attributes = None \<rparr>,
         \<lparr> tx_retain = Some 5, tx_insert = None, tx_delete = None, tx_attributes = None \<rparr>,
         \<lparr> tx_retain = None, tx_insert = Some (TStr ''!''), tx_delete = None,
           tx_attributes = None \<rparr>]
       = [None, None, None]"
proof -
  have h: "notification (TextEvent (Some [(''$id'', JStr ''t1'')])
       [\<lparr> td_insert = None, td_retain = Some 6, td_delete = None, td_attributes = None \<rparr>,
        \<lparr> td_insert = None, td_retain = Some 5, td_delete = None,
          td_attributes = Some [(''bold'', JBool True)] \<rparr>,
        \<lparr> td_insert = Some (TStr ''!''), td_retain = None, td_delete = None,
          td_attributes = Some [(''bold'', JBool True)] \<rparr>])
     = Inr \<lparr> msg_root = False, msg_target = JStr ''t1'', msg_elements = [],
             msg_attributes = \<lparr> attr_set = [], attr_delete = [] \<rparr>,
             msg_text =
               [\<lparr> tx_retain = Some 6, tx_insert = None, tx_delete = None,
                  tx_attributes = None \<rparr>,
                \<lparr> tx_retain = Some 5, tx_insert = None, tx_delete = None,
                  tx_attributes = None \<rparr>,
                \<lparr> tx_retain = None, tx_insert = Some (TStr ''!''), tx_delete = None,
                  tx_attributes = None \<rparr>] \<rparr>"
    by (simp add: textDelta_def truthyInsert_def truthyNum_def getAttribute_def)
  from observer_text_entries_without_attributes [OF h] h show ?thesis by simp
qed

end
